theory Spec2Isabelle
  imports Main "HOL-Library.Word"
begin

unbundle bit_operations_syntax

section \<open>Beacon processing of the ath9k driver (beacon.c)\<close>

subsection \<open>Compile-time constants\<close>

text \<open>
  \<^verbatim>\<open>beacon.c\<close> includes \<^verbatim>\<open>core.h\<close>, which declares the constants below and the
  structures of the driver.  The header is not part of the sources, so the constants
  are parameters of the model: every function takes the record \<open>P\<close> of their values.
  \<open>host_big_endian\<close> tells what \<^verbatim>\<open>cpu_to_le32\<close> and \<^verbatim>\<open>cpu_to_le64\<close> do on the
  compiling host, \<open>ieee80211_hdr_size\<close> is \<^verbatim>\<open>sizeof(struct ieee80211_hdr)\<close>.
\<close>

record ath_params =
  ATH_BCBUF :: nat
  ATH_IF_ID_ANY :: int
  BSTUCK_THRESH :: nat
  ATH_DEFAULT_BINTVAL :: nat
  ATH_DEFAULT_BMISS_LIMIT :: nat
  HAL_BEACON_PERIOD :: "32 word"
  HAL_BEACON_ENA :: "32 word"
  HAL_BEACON_RESET_TSF :: "32 word"
  HAL_INT_BMISS :: "32 word"
  HAL_INT_SWBA :: "32 word"
  ATH_ANTENNA_DIFF :: "32 word"
  ieee80211_hdr_size :: nat
  host_big_endian :: bool

text \<open>One choice of values, used for concrete runs.\<close>

definition ath9k_params :: ath_params where
  "ath9k_params =
     \<lparr>ATH_BCBUF = 4, ATH_IF_ID_ANY = 255, BSTUCK_THRESH = 36,
      ATH_DEFAULT_BINTVAL = 100, ATH_DEFAULT_BMISS_LIMIT = 10,
      HAL_BEACON_PERIOD = 0xFFFF, HAL_BEACON_ENA = 0x800000,
      HAL_BEACON_RESET_TSF = 0x1000000, HAL_INT_BMISS = 0x40000,
      HAL_INT_SWBA = 0x10000, ATH_ANTENNA_DIFF = 2,
      ieee80211_hdr_size = 24, host_big_endian = False\<rparr>"

subsection \<open>Driver state\<close>

text \<open>
  The structures of \<^verbatim>\<open>core.h\<close>, with the fields \<^verbatim>\<open>beacon.c\<close> reads and writes.
  Counters whose declaration is not in the sources are unsigned 32-bit words.
  An \<^verbatim>\<open>ath_buf\<close> is shared by pointer between the buffer pool, an interface and a
  transmit queue, so buffers live in a store \<open>sc_bufs\<close> and are named by their index
  there; a pointer to the link field of a descriptor (\<^verbatim>\<open>axq_link\<close>) is the index of
  the buffer that owns the descriptor, \<open>None\<close> is \<^verbatim>\<open>NULL\<close>.
  DMA mapping (\<^verbatim>\<open>bf_buf_addr\<close>, \<^verbatim>\<open>ds_data\<close>), rate codes and debug printing are
  left out.
\<close>

datatype hal_opmode = HAL_M_STA | HAL_M_IBSS | HAL_M_HOSTAP | HAL_M_MONITOR

datatype slot_update = OK | UPDATE | COMMIT

text \<open>What stops the C program: a failed assertion and the undefined reads and writes.\<close>

datatype beacon_error =
  AssertFailed | NullDeref | OutOfBounds | EmptyPool | DivideByZero

record sk_buff =
  skb_data :: "8 word list"

record ath_buf =
  bf_mpdu :: "sk_buff option"
  bf_daddr :: "32 word"
  ds_link :: "32 word"

record ath_txq =
  axq_qnum :: nat
  axq_q :: "nat list"
  axq_depth :: "32 word"
  axq_totalqueued :: "32 word"
  axq_linkbuf :: "nat option"
  axq_link :: "nat option"

record ath_vap =
  av_opmode :: hal_opmode
  av_bcbuf :: "nat option"
  av_bslot :: int
  av_mcastq :: ath_txq

text \<open>
  Calls that leave the file are recorded in the order they are made: the calls into
  the hardware layer in \<open>hal_calls\<close> of the \<^verbatim>\<open>ath_hal\<close>, the calls into the rest
  of the driver in \<open>sc_calls\<close>.
\<close>

datatype hal_call =
  PutTxBuf nat "32 word" | TxStart nat | StopTxDma nat | DmaRegDump
  | SetTxDesc nat | SetInterrupts "32 word" | BeaconInit "32 word" "32 word"
  | SetStaBeaconTimers | SetTxQueueProps nat | ResetTxQueue nat

datatype drv_call =
  TxComplete sk_buff | DrainTxq nat | InternalReset | SetSlotTime | SetDefAntenna nat

record ath_hal =
  hal_calls :: "hal_call list"

record ath_softc =
  sc_ah :: ath_hal
  sc_opmode :: hal_opmode
  sc_hasveol :: bool
  sc_stagbeacons :: bool
  sc_nostabeacons :: bool
  sc_noreset :: bool
  sc_diversity :: bool
  sc_bslot :: "int list"
  sc_nbcnvaps :: "32 word"
  sc_nvaps :: "32 word"
  sc_bbuf :: "nat list"
  sc_bufs :: "nat \<Rightarrow> ath_buf"
  sc_vaps :: "int \<Rightarrow> ath_vap option"
  sc_cabq :: ath_txq
  sc_bhalq :: nat
  sc_bmisscount :: "32 word"
  sc_updateslot :: slot_update
  sc_slotupdate :: int
  sc_defant :: nat
  sc_ant_tx :: "nat \<Rightarrow> 32 word"
  ast_be_xmit :: "32 word"
  sc_imask :: "32 word"
  sc_beacons :: bool
  sc_calls :: "drv_call list"

subsection \<open>Slot search of \<open>ath_beacon_alloc\<close>\<close>

text \<open>
  The \<^verbatim>\<open>for\<close> loop of \<^verbatim>\<open>ath_beacon_alloc\<close> (lines 391-406).  \<open>cur\<close> is the
  value of \<^verbatim>\<open>avp->av_bslot\<close> so far, \<open>slot\<close> the loop counter.  An empty slot whose
  right neighbour is empty too ends the loop with the neighbour (\<^verbatim>\<open>break\<close>); an
  empty slot without such a neighbour is recorded and the loop goes on.
\<close>

function bslot_scan :: "ath_params \<Rightarrow> int list \<Rightarrow> nat \<Rightarrow> int \<Rightarrow> int" where
  "bslot_scan P bslot slot cur =
     (if slot < ATH_BCBUF P then
        (if bslot ! slot = ATH_IF_ID_ANY P then
           (if slot + 1 < ATH_BCBUF P \<and> bslot ! (slot + 1) = ATH_IF_ID_ANY P
            then int (slot + 1)
            else bslot_scan P bslot (slot + 1) (int slot))
         else bslot_scan P bslot (slot + 1) cur)
      else cur)"
  by pat_completeness auto
termination
  by (relation "measure (\<lambda>(P, bslot, slot, cur). ATH_BCBUF P - slot)") auto

declare bslot_scan.simps [simp del]

text \<open>\<^verbatim>\<open>avp->av_bslot = 0; for (slot = 0; ...)\<close>: the slot the loop leaves in \<^verbatim>\<open>av_bslot\<close>.\<close>

definition assign_bslot :: "ath_params \<Rightarrow> int list \<Rightarrow> int" where
  "assign_bslot P bslot = bslot_scan P bslot 0 0"

subsection \<open>Byte order\<close>

text \<open>
  \<open>le_bytes64 w\<close> are the eight bytes of \<open>w\<close>, least significant first.
  \<open>object_bytes64\<close> are the bytes \<^verbatim>\<open>memcpy\<close> reads from a 64-bit object of the host,
  \<open>cpu_to_le64\<close> and \<open>cpu_to_le32\<close> swap the bytes on a big-endian host only.
\<close>

definition le_bytes64 :: "64 word \<Rightarrow> 8 word list" where
  "le_bytes64 w = map (\<lambda>i. ucast (drop_bit (8 * i) w)) [0..<8]"

definition of_le_bytes64 :: "8 word list \<Rightarrow> 64 word" where
  "of_le_bytes64 bs = foldr (\<lambda>b acc. ucast b OR push_bit 8 acc) bs 0"

definition le_bytes32 :: "32 word \<Rightarrow> 8 word list" where
  "le_bytes32 w = map (\<lambda>i. ucast (drop_bit (8 * i) w)) [0..<4]"

definition of_le_bytes32 :: "8 word list \<Rightarrow> 32 word" where
  "of_le_bytes32 bs = foldr (\<lambda>b acc. ucast b OR push_bit 8 acc) bs 0"

definition cpu_to_le64 :: "ath_params \<Rightarrow> 64 word \<Rightarrow> 64 word" where
  "cpu_to_le64 P w = (if host_big_endian P then of_le_bytes64 (rev (le_bytes64 w)) else w)"

definition cpu_to_le32 :: "ath_params \<Rightarrow> 32 word \<Rightarrow> 32 word" where
  "cpu_to_le32 P w = (if host_big_endian P then of_le_bytes32 (rev (le_bytes32 w)) else w)"

definition object_bytes64 :: "ath_params \<Rightarrow> 64 word \<Rightarrow> 8 word list" where
  "object_bytes64 P w = (if host_big_endian P then rev (le_bytes64 w) else le_bytes64 w)"

subsection \<open>\<open>ath_beacon_alloc\<close> and \<open>ath_beacon_return\<close>\<close>

text \<open>C division of \<^verbatim>\<open>int\<close>s rounds towards zero.\<close>

definition c_div :: "int \<Rightarrow> int \<Rightarrow> int" where
  "c_div a b = (if (a < 0) = (b < 0) then \<bar>a\<bar> div \<bar>b\<bar> else - (\<bar>a\<bar> div \<bar>b\<bar>))"

text \<open>
  Lines 465-466: the adjustment in TU, computed on \<^verbatim>\<open>int\<close>s, stored in the
  \<^verbatim>\<open>u_int64_t tsfadjust\<close> and shifted left by 10.
\<close>

definition tsfadjust_tu :: "ath_params \<Rightarrow> int \<Rightarrow> int" where
  "tsfadjust_tu P bslot =
     c_div (int (ATH_DEFAULT_BINTVAL P) * (int (ATH_BCBUF P) - bslot)) (int (ATH_BCBUF P))"

definition tsfadjust :: "ath_params \<Rightarrow> int \<Rightarrow> 64 word" where
  "tsfadjust P bslot = cpu_to_le64 P (push_bit 10 (word_of_int (tsfadjust_tu P bslot)))"

text \<open>
  \<^verbatim>\<open>memcpy(&wh[1], &tsfadjust, sizeof(tsfadjust))\<close> with \<^verbatim>\<open>wh\<close> the start of the
  frame: eight bytes are overwritten from offset \<^verbatim>\<open>sizeof(struct ieee80211_hdr)\<close> on.
  A frame too short for them is an out-of-bounds write.
\<close>

definition write_tsfadjust :: "ath_params \<Rightarrow> int \<Rightarrow> sk_buff \<Rightarrow> beacon_error + sk_buff" where
  "write_tsfadjust P bslot skb =
     (let off = ieee80211_hdr_size P; d = skb_data skb in
      if length d < off + 8 then Inl OutOfBounds
      else Inr (skb\<lparr>skb_data := take off d @ object_bytes64 P (tsfadjust P bslot) @ drop (off + 8) d\<rparr>))"

text \<open>
  Lines 416-426 and 502-512: a frame still attached to the buffer is handed to
  \<^verbatim>\<open>ath_tx_complete\<close> and detached.
\<close>

definition release_mpdu :: "ath_softc \<Rightarrow> nat \<Rightarrow> ath_softc" where
  "release_mpdu sc b =
     (case bf_mpdu (sc_bufs sc b) of
        None \<Rightarrow> sc
      | Some skb \<Rightarrow>
          sc\<lparr>sc_calls := sc_calls sc @ [TxComplete skb],
             sc_bufs := (sc_bufs sc)(b := (sc_bufs sc b)\<lparr>bf_mpdu := None\<rparr>)\<rparr>)"

text \<open>
  Lines 375-412.  With a buffer already attached nothing happens.  Otherwise the first
  buffer of the pool is taken (the source assumes there is one), and in AP mode or
  without self-linked descriptors the interface gets a slot; the \<^verbatim>\<open>KASSERT\<close> stops
  the program when the chosen slot is taken.  The result is the state and the buffer.
\<close>

definition slot_managed :: "ath_softc \<Rightarrow> bool" where
  "slot_managed sc \<longleftrightarrow> sc_opmode sc = HAL_M_HOSTAP \<or> \<not> sc_hasveol sc"

definition alloc_bcbuf ::
  "ath_params \<Rightarrow> ath_softc \<Rightarrow> int \<Rightarrow> ath_vap \<Rightarrow> beacon_error + (ath_softc \<times> ath_vap \<times> nat)" where
  "alloc_bcbuf P sc if_id avp =
     (case av_bcbuf avp of
        Some b \<Rightarrow> Inr (sc, avp, b)
      | None \<Rightarrow>
          (case sc_bbuf sc of
             [] \<Rightarrow> Inl EmptyPool
           | b # rest \<Rightarrow>
               (let avp1 = avp\<lparr>av_bcbuf := Some b\<rparr>; sc1 = sc\<lparr>sc_bbuf := rest\<rparr> in
                if slot_managed sc then
                  (let slot = assign_bslot P (sc_bslot sc) in
                   if \<not> (0 \<le> slot \<and> nat slot < length (sc_bslot sc)) then Inl OutOfBounds
                   else if sc_bslot sc ! nat slot \<noteq> ATH_IF_ID_ANY P then Inl AssertFailed
                   else Inr (sc1\<lparr>sc_bslot := (sc_bslot sc)[nat slot := if_id],
                                 sc_nbcnvaps := sc_nbcnvaps sc + 1\<rparr>,
                             avp1\<lparr>av_bslot := slot\<rparr>, b))
                else Inr (sc1, avp1, b))))"

text \<open>
  \<open>ath_beacon_alloc\<close>, lines 364-482.  \<open>get_beacon\<close> is what \<^verbatim>\<open>ath_get_beacon\<close>
  returns for this call: a frame, or \<open>None\<close> for \<^verbatim>\<open>NULL\<close>.  The result is the state
  with the value returned, \<open>0\<close> or \<open>- ENOMEM\<close>.
\<close>

definition ENOMEM :: int where
  "ENOMEM = 12"

definition ath_beacon_alloc ::
  "ath_params \<Rightarrow> ath_softc \<Rightarrow> int \<Rightarrow> sk_buff option \<Rightarrow> beacon_error + (ath_softc \<times> int)" where
  "ath_beacon_alloc P sc if_id get_beacon =
     (case sc_vaps sc if_id of
        None \<Rightarrow> Inl AssertFailed
      | Some avp \<Rightarrow>
          (case alloc_bcbuf P sc if_id avp of
             Inl e \<Rightarrow> Inl e
           | Inr (sc1, avp1, b) \<Rightarrow>
               (let sc2 = release_mpdu (sc1\<lparr>sc_vaps := (sc_vaps sc1)(if_id := Some avp1)\<rparr>) b in
                case get_beacon of
                  None \<Rightarrow> Inr (sc2, - ENOMEM)
                | Some skb \<Rightarrow>
                    (case (if sc_stagbeacons sc2 \<and> av_bslot avp1 > 0
                           then write_tsfadjust P (av_bslot avp1) skb else Inr skb) of
                       Inl e \<Rightarrow> Inl e
                     | Inr skb1 \<Rightarrow>
                         Inr (sc2\<lparr>sc_bufs := (sc_bufs sc2)(b := (sc_bufs sc2 b)\<lparr>bf_mpdu := Some skb1\<rparr>)\<rparr>,
                              0)))))"

text \<open>
  \<open>ath_beacon_return\<close>, lines 491-517.  The interface is passed by pointer in C, here
  by its index in \<open>sc_vaps\<close>; a missing interface is a \<^verbatim>\<open>NULL\<close> pointer.
\<close>

definition ath_beacon_return :: "ath_params \<Rightarrow> ath_softc \<Rightarrow> int \<Rightarrow> beacon_error + ath_softc" where
  "ath_beacon_return P sc if_id =
     (case sc_vaps sc if_id of
        None \<Rightarrow> Inl NullDeref
      | Some avp \<Rightarrow>
          (case av_bcbuf avp of
             None \<Rightarrow> Inr sc
           | Some b \<Rightarrow>
               (let r = (if av_bslot avp \<noteq> - 1 then
                           (if 0 \<le> av_bslot avp \<and> nat (av_bslot avp) < length (sc_bslot sc)
                            then Inr (sc\<lparr>sc_bslot := (sc_bslot sc)[nat (av_bslot avp) := ATH_IF_ID_ANY P],
                                         sc_nbcnvaps := sc_nbcnvaps sc - 1\<rparr>)
                            else Inl OutOfBounds)
                         else Inr sc) in
                case r of
                  Inl e \<Rightarrow> Inl e
                | Inr sc1 \<Rightarrow>
                    (let sc2 = release_mpdu sc1 b in
                     Inr (sc2\<lparr>sc_bbuf := sc_bbuf sc2 @ [b],
                              sc_vaps := (sc_vaps sc2)(if_id := Some (avp\<lparr>av_bcbuf := None\<rparr>))\<rparr>)))))"

subsection \<open>Moving multicast frames to the CAB queue\<close>

text \<open>
  \<open>empty_mcastq_into_cabq\<close>, lines 154-180.  \<^verbatim>\<open>BUG_ON\<close> stops the program on an empty
  multicast list.  The test \<^verbatim>\<open>!cabq->axq_link\<close> chooses between loading the queue
  head register (\<^verbatim>\<open>ath9k_hw_puttxbuf\<close>) and writing through the link pointer.
\<close>

definition empty_mcastq_into_cabq ::
  "ath_params \<Rightarrow> ath_hal \<Rightarrow> (nat \<Rightarrow> ath_buf) \<Rightarrow> ath_txq \<Rightarrow> ath_txq \<Rightarrow>
   beacon_error + (ath_hal \<times> (nat \<Rightarrow> ath_buf) \<times> ath_txq \<times> ath_txq)" where
  "empty_mcastq_into_cabq P ah bufs mcastq cabq =
     (case axq_q mcastq of
        [] \<Rightarrow> Inl AssertFailed
      | bfmcast # _ \<Rightarrow>
          (let daddr = bf_daddr (bufs bfmcast);
               ah1 = (case axq_link cabq of
                        None \<Rightarrow> ah\<lparr>hal_calls := hal_calls ah @ [PutTxBuf (axq_qnum cabq) daddr]\<rparr>
                      | Some l \<Rightarrow> ah);
               bufs1 = (case axq_link cabq of
                          None \<Rightarrow> bufs
                        | Some l \<Rightarrow> bufs(l := (bufs l)\<lparr>ds_link := cpu_to_le32 P daddr\<rparr>));
               cabq1 = cabq\<lparr>axq_depth := axq_depth cabq + axq_depth mcastq,
                            axq_totalqueued := axq_totalqueued cabq + axq_totalqueued mcastq,
                            axq_linkbuf := axq_linkbuf mcastq,
                            axq_link := axq_link mcastq,
                            axq_q := axq_q cabq @ axq_q mcastq\<rparr>;
               mcastq1 = mcastq\<lparr>axq_q := [], axq_depth := 0, axq_totalqueued := 0,
                                axq_linkbuf := None, axq_link := None\<rparr>
           in Inr (ah1, bufs1, mcastq1, cabq1)))"

text \<open>\<open>trigger_mcastq\<close>, lines 184-197.\<close>

definition trigger_mcastq ::
  "ath_params \<Rightarrow> ath_hal \<Rightarrow> (nat \<Rightarrow> ath_buf) \<Rightarrow> ath_txq \<Rightarrow> ath_txq \<Rightarrow>
   beacon_error + (ath_hal \<times> (nat \<Rightarrow> ath_buf) \<times> ath_txq \<times> ath_txq)" where
  "trigger_mcastq P ah bufs mcastq cabq =
     (case (if axq_q mcastq \<noteq> [] then empty_mcastq_into_cabq P ah bufs mcastq cabq
            else Inr (ah, bufs, mcastq, cabq)) of
        Inl e \<Rightarrow> Inl e
      | Inr (ah1, bufs1, mcastq1, cabq1) \<Rightarrow>
          Inr (if axq_q cabq1 \<noteq> []
               then ah1\<lparr>hal_calls := hal_calls ah1 @ [TxStart (axq_qnum cabq1)]\<rparr> else ah1,
               bufs1, mcastq1, cabq1))"

subsection \<open>Generating a beacon\<close>

text \<open>
  Modelled from the spec: \<^verbatim>\<open>ath_tx_draintxq\<close> is called on the CAB queue but defined in
  another file of the driver.  The spec (4.3) says that the content of the shared queue
  "is forcibly drained (discarded)": the queue is left empty, with depth 0 and no link.
\<close>

definition ath_tx_draintxq :: "ath_softc \<Rightarrow> ath_softc" where
  "ath_tx_draintxq sc =
     sc\<lparr>sc_cabq := (sc_cabq sc)\<lparr>axq_q := [], axq_depth := 0, axq_linkbuf := None, axq_link := None\<rparr>,
        sc_calls := sc_calls sc @ [DrainTxq (axq_qnum (sc_cabq sc))]\<rparr>"

text \<open>
  \<open>ath_beacon_setup\<close>, lines 66-148: the link of the descriptor is the descriptor itself
  in ad-hoc mode with self-linked descriptors and 0 otherwise; the frame is read
  (\<^verbatim>\<open>skb->len\<close>); with staggered beacons the antenna is computed by a division by
  \<^verbatim>\<open>sc_nbcnvaps\<close>.  The calls that fill the descriptor are recorded as one.
\<close>

definition ath_beacon_setup :: "ath_params \<Rightarrow> ath_softc \<Rightarrow> nat \<Rightarrow> beacon_error + ath_softc" where
  "ath_beacon_setup P sc b =
     (let bf = sc_bufs sc b in
      case bf_mpdu bf of
        None \<Rightarrow> Inl NullDeref
      | Some skb \<Rightarrow>
          (let veol = (sc_opmode sc = HAL_M_IBSS \<and> sc_hasveol sc);
               link = (if veol then bf_daddr bf else 0)
           in if \<not> veol \<and> sc_stagbeacons sc \<and> sc_nbcnvaps sc = 0 then Inl DivideByZero
              else Inr (sc\<lparr>sc_bufs := (sc_bufs sc)(b := bf\<lparr>ds_link := link\<rparr>),
                           sc_ah := (sc_ah sc)\<lparr>hal_calls := hal_calls (sc_ah sc) @ [SetTxDesc b]\<rparr>\<rparr>)))"

text \<open>
  What the hardware and the beacon content provider answer during one run of the
  tasklet: the number of frames pending on the beacon queue, the clock, and for
  \<^verbatim>\<open>ath_update_beacon\<close> (called with the interface and its multicast depth) its result
  together with the byte \<^verbatim>\<open>bo_tim[4]\<close> of the refreshed frame.
\<close>

record tasklet_env =
  numtxpending :: "32 word"
  gettsf64 :: "64 word"
  ath_update_beacon :: "int \<Rightarrow> 32 word \<Rightarrow> bool \<times> 8 word"

text \<open>
  \<open>ath_beacon_generate\<close>, lines 207-299.  The result is the buffer of the beacon, or
  \<open>None\<close> for \<^verbatim>\<open>NULL\<close>.
\<close>

definition ath_beacon_generate ::
  "ath_params \<Rightarrow> tasklet_env \<Rightarrow> ath_softc \<Rightarrow> int \<Rightarrow> beacon_error + (ath_softc \<times> nat option)" where
  "ath_beacon_generate P env sc if_id =
     (case sc_vaps sc if_id of
        None \<Rightarrow> Inl AssertFailed
      | Some avp \<Rightarrow>
          (case av_bcbuf avp of
             None \<Rightarrow> Inr (sc, None)
           | Some b \<Rightarrow>
               (case bf_mpdu (sc_bufs sc b) of
                  None \<Rightarrow> Inl NullDeref
                | Some skb \<Rightarrow>
                    (let mcastq_depth = axq_depth (av_mcastq avp);
                         is_beacon_dtim = (snd (ath_update_beacon env if_id mcastq_depth) AND 1 \<noteq> 0);
                         cabq_depth = axq_depth (sc_cabq sc);
                         sc1 = (if mcastq_depth \<noteq> 0 \<and> is_beacon_dtim \<and> cabq_depth \<noteq> 0 \<and>
                                   1 < sc_nvaps sc \<and> sc_stagbeacons sc
                                then ath_tx_draintxq sc else sc)
                     in case ath_beacon_setup P sc1 b of
                          Inl e \<Rightarrow> Inl e
                        | Inr sc2 \<Rightarrow>
                            (if is_beacon_dtim then
                               (case trigger_mcastq P (sc_ah sc2) (sc_bufs sc2) (av_mcastq avp) (sc_cabq sc2) of
                                  Inl e \<Rightarrow> Inl e
                                | Inr (ah, bufs, mcastq, cabq) \<Rightarrow>
                                    Inr (sc2\<lparr>sc_ah := ah, sc_bufs := bufs, sc_cabq := cabq,
                                             sc_vaps := (sc_vaps sc2)(if_id := Some (avp\<lparr>av_mcastq := mcastq\<rparr>))\<rparr>,
                                         Some b))
                             else Inr (sc2, Some b))))))"

subsection \<open>The beacon tasklet\<close>

text \<open>The macro \<^verbatim>\<open>TSF_TO_TU\<close> of lines 559 and 807, and its use on a 64-bit clock value.\<close>

definition TSF_TO_TU :: "32 word \<Rightarrow> 32 word \<Rightarrow> 32 word" where
  "TSF_TO_TU h l = push_bit 22 h OR drop_bit 10 l"

definition tsf_tu :: "64 word \<Rightarrow> 32 word" where
  "tsf_tu tsf = TSF_TO_TU (ucast (drop_bit 32 tsf)) (ucast tsf)"

text \<open>
  \<open>ath_bstuck_process\<close>, lines 781-787: the call of \<^verbatim>\<open>ath_internal_reset\<close> is
  recorded.
\<close>

definition ath_bstuck_process :: "ath_softc \<Rightarrow> ath_softc" where
  "ath_bstuck_process sc = sc\<lparr>sc_calls := sc_calls sc @ [InternalReset]\<rparr>"

text \<open>Lines 586-637: the beacon queue has not drained.\<close>

definition beacon_missed :: "ath_params \<Rightarrow> ath_softc \<Rightarrow> ath_softc" where
  "beacon_missed P sc =
     (let sc1 = sc\<lparr>sc_bmisscount := sc_bmisscount sc + 1\<rparr> in
      if unat (sc_bmisscount sc1) < BSTUCK_THRESH P then sc1
      else if sc_noreset sc1 then
        (if unat (sc_bmisscount sc1) = BSTUCK_THRESH P
         then sc1\<lparr>sc_ah := (sc_ah sc1)\<lparr>hal_calls := hal_calls (sc_ah sc1) @ [DmaRegDump]\<rparr>\<rparr>
         else sc1)
      else ath_bstuck_process sc1)"

text \<open>C remainder of \<^verbatim>\<open>int\<close>s, with the sign of the dividend.\<close>

definition c_rem :: "int \<Rightarrow> int \<Rightarrow> int" where
  "c_rem a b = a - b * c_div a b"

text \<open>
  Line 671: \<^verbatim>\<open>slot = ((tsftu % intval) * ATH_BCBUF) / intval\<close> with the 16-bit
  \<^verbatim>\<open>intval\<close>, computed on unsigned 32-bit values and stored in the \<^verbatim>\<open>int slot\<close>.
\<close>

definition stag_intval :: "ath_params \<Rightarrow> 32 word" where
  "stag_intval P = ucast (word_of_nat (ATH_DEFAULT_BINTVAL P) :: 16 word)"

definition stag_slot :: "ath_params \<Rightarrow> 64 word \<Rightarrow> beacon_error + int" where
  "stag_slot P tsf =
     (if stag_intval P = 0 then Inl DivideByZero
      else Inr (sint (((tsf_tu tsf mod stag_intval P) * word_of_nat (ATH_BCBUF P)) div stag_intval P)))"

text \<open>Line 672: the entry \<^verbatim>\<open>sc_bslot[(slot + 1) % ATH_BCBUF]\<close>.\<close>

definition stag_if_id :: "ath_params \<Rightarrow> ath_softc \<Rightarrow> int \<Rightarrow> beacon_error + int" where
  "stag_if_id P sc slot =
     (if ATH_BCBUF P = 0 then Inl DivideByZero
      else let i = c_rem (slot + 1) (int (ATH_BCBUF P)) in
        if 0 \<le> i \<and> nat i < length (sc_bslot sc) then Inr (sc_bslot sc ! nat i)
        else Inl OutOfBounds)"

text \<open>
  Lines 691-705, the loop over the slots when beacons are sent in a burst.  The state of
  the loop is the driver state, \<^verbatim>\<open>bfaddr\<close>, the pointer \<^verbatim>\<open>bflink\<close> (\<open>None\<close> while
  it points to \<^verbatim>\<open>bfaddr\<close>, else the buffer whose descriptor link it points to),
  the count \<^verbatim>\<open>bc\<close>, and the interfaces \<open>ath_beacon_generate\<close> was called for.
\<close>

fun burst_loop ::
  "ath_params \<Rightarrow> tasklet_env \<Rightarrow> nat list \<Rightarrow>
   ath_softc \<times> 32 word \<times> nat option \<times> 32 word \<times> int list \<Rightarrow>
   beacon_error + (ath_softc \<times> 32 word \<times> nat option \<times> 32 word \<times> int list)" where
  "burst_loop P env [] st = Inr st"
| "burst_loop P env (slot # slots) (sc, bfaddr, bflink, bc, gen) =
     (if \<not> slot < length (sc_bslot sc) then Inl OutOfBounds
      else let if_id = sc_bslot sc ! slot in
        if if_id = ATH_IF_ID_ANY P then burst_loop P env slots (sc, bfaddr, bflink, bc, gen)
        else
          (case ath_beacon_generate P env sc if_id of
             Inl e \<Rightarrow> Inl e
           | Inr (sc1, None) \<Rightarrow> burst_loop P env slots (sc1, bfaddr, bflink, bc, gen @ [if_id])
           | Inr (sc1, Some b) \<Rightarrow>
               (let daddr = bf_daddr (sc_bufs sc1 b);
                    sc2 = (case bflink of
                             None \<Rightarrow> sc1
                           | Some l \<Rightarrow>
                               sc1\<lparr>sc_bufs := (sc_bufs sc1)(l := (sc_bufs sc1 l)\<lparr>ds_link := cpu_to_le32 P daddr\<rparr>)\<rparr>);
                    bfaddr1 = (case bflink of None \<Rightarrow> daddr | Some l \<Rightarrow> bfaddr)
                in burst_loop P env slots (sc2, bfaddr1, Some b, bc + 1, gen @ [if_id]))))"

text \<open>
  Lines 660-707: the beacons of this run.  The result is the state, the \<^verbatim>\<open>slot\<close>,
  \<^verbatim>\<open>bfaddr\<close>, \<^verbatim>\<open>bc\<close> and the interfaces \<open>ath_beacon_generate\<close> was called for.
\<close>

definition generate_beacons ::
  "ath_params \<Rightarrow> tasklet_env \<Rightarrow> ath_softc \<Rightarrow>
   beacon_error + (ath_softc \<times> int \<times> 32 word \<times> 32 word \<times> int list)" where
  "generate_beacons P env sc =
     (if sc_stagbeacons sc then
        (case stag_slot P (gettsf64 env) of
           Inl e \<Rightarrow> Inl e
         | Inr slot \<Rightarrow>
             (case stag_if_id P sc slot of
                Inl e \<Rightarrow> Inl e
              | Inr if_id \<Rightarrow>
                  if if_id = ATH_IF_ID_ANY P then Inr (sc, slot, 0, 0, [])
                  else
                    (case ath_beacon_generate P env sc if_id of
                       Inl e \<Rightarrow> Inl e
                     | Inr (sc1, None) \<Rightarrow> Inr (sc1, slot, 0, 0, [if_id])
                     | Inr (sc1, Some b) \<Rightarrow> Inr (sc1, slot, bf_daddr (sc_bufs sc1 b), 1, [if_id]))))
      else
        (case burst_loop P env [0..<ATH_BCBUF P] (sc, 0, None, 0, []) of
           Inl e \<Rightarrow> Inl e
         | Inr (sc1, bfaddr, bflink, bc, gen) \<Rightarrow>
             (case bflink of
                None \<Rightarrow> Inr (sc1, int (ATH_BCBUF P), 0, bc, gen)
              | Some l \<Rightarrow>
                  Inr (sc1\<lparr>sc_bufs := (sc_bufs sc1)(l := (sc_bufs sc1 l)\<lparr>ds_link := 0\<rparr>)\<rparr>,
                       int (ATH_BCBUF P), bfaddr, bc, gen))))"

text \<open>Lines 725-729: the deferred change of the slot time; \<^verbatim>\<open>ath_setslottime\<close> is recorded.\<close>

definition slot_time_update :: "ath_softc \<Rightarrow> int \<Rightarrow> ath_softc" where
  "slot_time_update sc slot =
     (if sc_updateslot sc = UPDATE then sc\<lparr>sc_updateslot := COMMIT, sc_slotupdate := slot\<rparr>
      else if sc_updateslot sc = COMMIT \<and> sc_slotupdate sc = slot
      then sc\<lparr>sc_calls := sc_calls sc @ [SetSlotTime]\<rparr>
      else sc)"

text \<open>Lines 731-750: the default antenna; \<^verbatim>\<open>ath_setdefantenna\<close> is recorded.\<close>

definition antenna_check :: "ath_params \<Rightarrow> ath_softc \<Rightarrow> int \<Rightarrow> ath_softc" where
  "antenna_check P sc slot =
     (if (\<not> sc_stagbeacons sc \<or> slot = 0) \<and> \<not> sc_diversity sc then
        (let otherant = (if odd (sc_defant sc) then 2 else 1);
             sc1 = (if sc_ant_tx sc (sc_defant sc) + ATH_ANTENNA_DIFF P < sc_ant_tx sc otherant
                    then sc\<lparr>sc_calls := sc_calls sc @ [SetDefAntenna otherant]\<rparr> else sc)
         in sc1\<lparr>sc_ant_tx := (sc_ant_tx sc1)(1 := 0, 2 := 0)\<rparr>)
      else sc)"

text \<open>Lines 752-770: the frames are handed to the hardware.\<close>

definition submit_beacons :: "ath_softc \<Rightarrow> 32 word \<Rightarrow> 32 word \<Rightarrow> ath_softc" where
  "submit_beacons sc bfaddr bc =
     (if bfaddr \<noteq> 0 then
        sc\<lparr>sc_ah := (sc_ah sc)\<lparr>hal_calls := hal_calls (sc_ah sc) @
                   [StopTxDma (sc_bhalq sc), PutTxBuf (sc_bhalq sc) bfaddr, TxStart (sc_bhalq sc)]\<rparr>,
           ast_be_xmit := ast_be_xmit sc + bc\<rparr>
      else sc)"

text \<open>
  \<open>ath9k_beacon_tasklet\<close>, lines 557-772.  The result is the state and the interfaces
  \<open>ath_beacon_generate\<close> was called for during the run.
\<close>

definition ath9k_beacon_tasklet ::
  "ath_params \<Rightarrow> tasklet_env \<Rightarrow> ath_softc \<Rightarrow> beacon_error + (ath_softc \<times> int list)" where
  "ath9k_beacon_tasklet P env sc =
     (if numtxpending env \<noteq> 0 then Inr (beacon_missed P sc, [])
      else
        (let sc0 = (if sc_bmisscount sc \<noteq> 0 then sc\<lparr>sc_bmisscount := 0\<rparr> else sc) in
         case generate_beacons P env sc0 of
           Inl e \<Rightarrow> Inl e
         | Inr (sc1, slot, bfaddr, bc, gen) \<Rightarrow>
             Inr (submit_beacons (antenna_check P (slot_time_update sc1 slot) slot) bfaddr bc, gen)))"

text \<open>
  A sequence of runs of the tasklet, one per beacon timer event, each with its own
  answers of the hardware.  The generated interfaces of all runs are collected.
\<close>

fun tasklet_runs ::
  "ath_params \<Rightarrow> tasklet_env list \<Rightarrow> ath_softc \<Rightarrow> beacon_error + (ath_softc \<times> int list)" where
  "tasklet_runs P [] sc = Inr (sc, [])"
| "tasklet_runs P (env # envs) sc =
     (case ath9k_beacon_tasklet P env sc of
        Inl e \<Rightarrow> Inl e
      | Inr (sc1, gen) \<Rightarrow>
          (case tasklet_runs P envs sc1 of
             Inl e \<Rightarrow> Inl e
           | Inr (sc2, gens) \<Rightarrow> Inr (sc2, gen @ gens)))"

subsection \<open>Beacon timers\<close>

text \<open>
  \<^verbatim>\<open>struct ath_beacon_config\<close> and \<^verbatim>\<open>struct hal_beacon_state\<close> are declared in headers
  that are not in the sources; the intervals of the former are taken as 16-bit fields
  (as the \<^verbatim>\<open>u_int16_t intval\<close> of the tasklet), the DTIM count as a byte, the fields
  of the latter as 32-bit.  \<open>default_conf\<close> is the configuration of lines 819-831: the
  structure is zeroed, so the timestamp of the last beacon is 0.
\<close>

record beacon_conf =
  beacon_interval :: "16 word"
  listen_interval :: "16 word"
  dtim_period :: "16 word"
  dtim_count :: "8 word"
  bmiss_timeout :: "16 word"
  last_tstamp :: "64 word"

definition default_conf :: "ath_params \<Rightarrow> beacon_conf" where
  "default_conf P =
     (let bi = (word_of_nat (ATH_DEFAULT_BINTVAL P) :: 16 word) in
      \<lparr>beacon_interval = bi, listen_interval = 1, dtim_period = bi, dtim_count = 1,
       bmiss_timeout = word_of_nat (ATH_DEFAULT_BMISS_LIMIT P) * bi, last_tstamp = 0\<rparr>)"

record hal_beacon_state =
  bs_intval :: "32 word"
  bs_nexttbtt :: "32 word"
  bs_dtimperiod :: "32 word"
  bs_nextdtim :: "32 word"
  bs_cfpperiod :: "32 word"
  bs_cfpnext :: "32 word"
  bs_cfpmaxduration :: "32 word"
  bs_bmissthreshold :: "32 word"

text \<open>The macros \<^verbatim>\<open>roundup\<close> and \<^verbatim>\<open>howmany\<close> on unsigned 32-bit values.\<close>

definition howmany :: "32 word \<Rightarrow> 32 word \<Rightarrow> 32 word" where
  "howmany x y = (x + (y - 1)) div y"

definition roundup :: "32 word \<Rightarrow> 32 word \<Rightarrow> 32 word" where
  "roundup x y = ((x + (y - 1)) div y) * y"

text \<open>
  Lines 898-902, the countdown of one beacon interval: the DTIM count is decremented
  and starts again at the DTIM period minus one when it falls below 0, and then the CFP
  count does the same with its period.  The counters are C \<^verbatim>\<open>int\<close>s.
\<close>

definition dtim_step :: "int \<Rightarrow> int \<Rightarrow> int \<times> int \<Rightarrow> int \<times> int" where
  "dtim_step dtimperiod cfpperiod c =
     (if fst c - 1 < 0
      then (dtimperiod - 1, if snd c - 1 < 0 then cfpperiod - 1 else snd c - 1)
      else (fst c - 1, snd c))"

text \<open>
  Lines 896-903, the \<^verbatim>\<open>do ... while (nexttbtt < tsftu)\<close> loop of the station.  The
  addition wraps at \<open>2 ^ 32\<close>, so the loop need not end: the result is \<open>None\<close> when it
  runs forever.
\<close>

partial_function (option) sta_tbtt_loop ::
  "32 word \<Rightarrow> 32 word \<Rightarrow> int \<Rightarrow> int \<Rightarrow> 32 word \<Rightarrow> int \<times> int \<Rightarrow> (32 word \<times> int \<times> int) option" where
  "sta_tbtt_loop intval tsftu dtimperiod cfpperiod nexttbtt c =
     (if nexttbtt + intval < tsftu
      then sta_tbtt_loop intval tsftu dtimperiod cfpperiod (nexttbtt + intval)
             (dtim_step dtimperiod cfpperiod c)
      else Some (nexttbtt + intval, dtim_step dtimperiod cfpperiod c))"

text \<open>Lines 997-999, the same loop in ad-hoc mode.\<close>

partial_function (option) ibss_tbtt_loop :: "32 word \<Rightarrow> 32 word \<Rightarrow> 32 word \<Rightarrow> 32 word option" where
  "ibss_tbtt_loop intval tsftu nexttbtt =
     (let nexttbtt1 = nexttbtt + intval
      in if nexttbtt1 < tsftu then ibss_tbtt_loop intval tsftu nexttbtt1 else Some nexttbtt1)"

text \<open>
  Lines 834-858: the interval and the first candidate for the next beacon time.
  \<^verbatim>\<open>intval /= ATH_BCBUF\<close> divides by the number of slots.
\<close>

definition config_intval :: "ath_params \<Rightarrow> ath_softc \<Rightarrow> beacon_error + 32 word" where
  "config_intval P sc =
     (let intval = ucast (beacon_interval (default_conf P)) AND HAL_BEACON_PERIOD P in
      if sc_opmode sc = HAL_M_HOSTAP \<and> sc_stagbeacons sc then
        (if ATH_BCBUF P = 0 then Inl DivideByZero else Inr (intval div word_of_nat (ATH_BCBUF P)))
      else Inr intval)"

definition config_nexttbtt :: "ath_params \<Rightarrow> ath_softc \<Rightarrow> hal_opmode \<Rightarrow> 32 word \<Rightarrow> 32 word" where
  "config_nexttbtt P sc av_opm intval =
     (let tstamp = last_tstamp (default_conf P);
          n0 = TSF_TO_TU (ucast (drop_bit 32 tstamp)) (ucast tstamp);
          n1 = (if sc_opmode sc = HAL_M_HOSTAP \<and> sc_nostabeacons sc \<and> av_opm = HAL_M_HOSTAP
                then 0 else n0)
      in if n1 = 0 then intval else if intval \<noteq> 0 then roundup n1 intval else n1)"

text \<open>
  Lines 866-931, the station: DTIM and CFP counters, the loop, and the beacon miss
  threshold.  \<^verbatim>\<open>howmany\<close> divides by the interval.  The sleep duration (lines 943-946,
  with a macro of a header that is not in the sources) is left out.
\<close>

definition sta_bmissthreshold :: "ath_params \<Rightarrow> 32 word \<Rightarrow> beacon_error + 32 word" where
  "sta_bmissthreshold P intval =
     (let conf = default_conf P;
          s0 = sint (ucast (listen_interval conf) * intval);
          sleepduration = (if s0 \<le> 0 then sint intval else s0)
      in if intval < word_of_int sleepduration then
           Inr (word_of_int (c_div (uint (listen_interval conf) * int (ATH_DEFAULT_BMISS_LIMIT P)) 2))
         else if intval = 0 then Inl DivideByZero
         else (let t = howmany (ucast (bmiss_timeout conf)) intval in
               Inr (if 15 < t then 15 else if t = 0 then 1 else t)))"

text \<open>Lines 876-881: the DTIM period and count the loop starts from.\<close>

definition sta_dtimperiod :: "ath_params \<Rightarrow> int" where
  "sta_dtimperiod P =
     (if uint (dtim_period (default_conf P)) \<le> 0 then 1 else uint (dtim_period (default_conf P)))"

definition sta_dtimcount :: "ath_params \<Rightarrow> int" where
  "sta_dtimcount P =
     (if sta_dtimperiod P \<le> uint (dtim_count (default_conf P)) then 0
      else uint (dtim_count (default_conf P)))"

definition sta_beacon_state ::
  "ath_params \<Rightarrow> 32 word \<Rightarrow> 32 word \<Rightarrow> 64 word \<Rightarrow> (beacon_error + hal_beacon_state) option" where
  "sta_beacon_state P intval nexttbtt tsf =
     (let dtimperiod = sta_dtimperiod P;
          dtimcount = sta_dtimcount P;
          cfpperiod = 1;
          cfpcount = 0;
          tsftu = tsf_tu tsf + 2
      in case sta_tbtt_loop intval tsftu dtimperiod cfpperiod nexttbtt (dtimcount, cfpcount) of
           None \<Rightarrow> None
         | Some (nexttbtt1, dtimcount1, cfpcount1) \<Rightarrow>
             (case sta_bmissthreshold P intval of
                Inl e \<Rightarrow> Some (Inl e)
              | Inr thresh \<Rightarrow>
                  (let dp = word_of_int dtimperiod * intval;
                       nd = nexttbtt1 + word_of_int dtimcount1 * intval
                   in Some (Inr \<lparr>bs_intval = intval, bs_nexttbtt = nexttbtt1, bs_dtimperiod = dp,
                                  bs_nextdtim = nd, bs_cfpperiod = word_of_int cfpperiod * dp,
                                  bs_cfpnext = nd + word_of_int cfpcount1 * dp,
                                  bs_cfpmaxduration = 0, bs_bmissthreshold = thresh\<rparr>))))"

text \<open>\<open>ath_beaconq_config\<close>, lines 29-56; \<open>ok\<close> is the answer of \<^verbatim>\<open>ath9k_hw_settxqueueprops\<close>.\<close>

definition ath_beaconq_config :: "bool \<Rightarrow> ath_softc \<Rightarrow> ath_softc \<times> int" where
  "ath_beaconq_config ok sc =
     (let calls = hal_calls (sc_ah sc) @ [SetTxQueueProps (sc_bhalq sc)] in
      if \<not> ok then (sc\<lparr>sc_ah := (sc_ah sc)\<lparr>hal_calls := calls\<rparr>\<rparr>, 0)
      else (sc\<lparr>sc_ah := (sc_ah sc)\<lparr>hal_calls := calls @ [ResetTxQueue (sc_bhalq sc)]\<rparr>\<rparr>, 1))"

text \<open>\<open>ath_beacon_start_adhoc\<close>, lines 306-332.\<close>

definition ath_beacon_start_adhoc :: "ath_params \<Rightarrow> ath_softc \<Rightarrow> int \<Rightarrow> beacon_error + ath_softc" where
  "ath_beacon_start_adhoc P sc if_id =
     (case sc_vaps sc if_id of
        None \<Rightarrow> Inl AssertFailed
      | Some avp \<Rightarrow>
          (case av_bcbuf avp of
             None \<Rightarrow> Inr sc
           | Some b \<Rightarrow>
               (case ath_beacon_setup P sc b of
                  Inl e \<Rightarrow> Inl e
                | Inr sc1 \<Rightarrow>
                    Inr (sc1\<lparr>sc_ah := (sc_ah sc1)\<lparr>hal_calls := hal_calls (sc_ah sc1) @
                           [PutTxBuf (sc_bhalq sc1) (bf_daddr (sc_bufs sc1 b)), TxStart (sc_bhalq sc1)]\<rparr>\<rparr>))))"

text \<open>Lines 982-1037, access point and ad-hoc mode.\<close>

definition ap_beacon_config ::
  "ath_params \<Rightarrow> bool \<Rightarrow> 64 word \<Rightarrow> ath_softc \<Rightarrow> 32 word \<Rightarrow> 32 word \<Rightarrow> (beacon_error + ath_softc) option" where
  "ap_beacon_config P ok tsf sc intval nexttbtt =
     (let sc1 = sc\<lparr>sc_ah := (sc_ah sc)\<lparr>hal_calls := hal_calls (sc_ah sc) @ [SetInterrupts 0]\<rparr>\<rparr>;
          intval1 = (if nexttbtt = intval then intval OR HAL_BEACON_RESET_TSF P else intval);
          next = (if sc_opmode sc = HAL_M_IBSS \<and> intval1 AND HAL_BEACON_RESET_TSF P = 0
                  then ibss_tbtt_loop intval1 (tsf_tu tsf + 2) nexttbtt else Some nexttbtt)
      in case next of
           None \<Rightarrow> None
         | Some nexttbtt1 \<Rightarrow>
             (let beaconing = (sc_opmode sc = HAL_M_IBSS \<or> sc_opmode sc = HAL_M_HOSTAP);
                  intval2 = (if beaconing then intval1 OR HAL_BEACON_ENA P else intval1);
                  swba = (if sc_opmode sc = HAL_M_IBSS then \<not> sc_hasveol sc
                          else sc_opmode sc = HAL_M_HOSTAP);
                  sc2 = (if swba then sc1\<lparr>sc_imask := sc_imask sc1 OR HAL_INT_SWBA P\<rparr> else sc1);
                  sc3 = (if beaconing then fst (ath_beaconq_config ok sc2) else sc2);
                  sc4 = sc3\<lparr>sc_ah := (sc_ah sc3)\<lparr>hal_calls := hal_calls (sc_ah sc3) @
                              [BeaconInit nexttbtt1 intval2]\<rparr>, sc_bmisscount := 0\<rparr>;
                  sc5 = sc4\<lparr>sc_ah := (sc_ah sc4)\<lparr>hal_calls := hal_calls (sc_ah sc4) @
                              [SetInterrupts (sc_imask sc4)]\<rparr>\<rparr>
              in if sc_opmode sc = HAL_M_IBSS \<and> sc_hasveol sc
                 then Some (ath_beacon_start_adhoc P sc5 0) else Some (Inr sc5)))"

text \<open>
  \<open>ath_beacon_config\<close>, lines 805-1039.  \<open>tsf\<close> is the clock read by
  \<^verbatim>\<open>ath9k_hw_gettsf64\<close>.  The station path is taken in station mode and for a station
  interface of an access point without station beacons; its result carries the beacon
  state that was computed, which is programmed unless \<^verbatim>\<open>sc_nostabeacons\<close> is set.
\<close>

definition sta_path :: "ath_softc \<Rightarrow> hal_opmode \<Rightarrow> bool" where
  "sta_path sc av_opm \<longleftrightarrow>
     sc_opmode sc = HAL_M_STA \<or>
     (sc_opmode sc = HAL_M_HOSTAP \<and> av_opm = HAL_M_STA \<and> sc_nostabeacons sc)"

definition ath_beacon_config ::
  "ath_params \<Rightarrow> bool \<Rightarrow> 64 word \<Rightarrow> ath_softc \<Rightarrow> int \<Rightarrow>
   (beacon_error + ath_softc \<times> hal_beacon_state option) option" where
  "ath_beacon_config P ok tsf sc if_id =
     (case (if if_id \<noteq> ATH_IF_ID_ANY P
            then (case sc_vaps sc if_id of None \<Rightarrow> Inl NullDeref | Some avp \<Rightarrow> Inr (av_opmode avp))
            else Inr (sc_opmode sc)) of
        Inl e \<Rightarrow> Some (Inl e)
      | Inr av_opm \<Rightarrow>
          (case config_intval P sc of
             Inl e \<Rightarrow> Some (Inl e)
           | Inr intval \<Rightarrow>
               (let nexttbtt = config_nexttbtt P sc av_opm intval in
                if sta_path sc av_opm then
                  (case sta_beacon_state P intval nexttbtt tsf of
                     None \<Rightarrow> None
                   | Some (Inl e) \<Rightarrow> Some (Inl e)
                   | Some (Inr bs) \<Rightarrow>
                       Some (Inr (if sc_nostabeacons sc then sc
                                  else sc\<lparr>sc_ah := (sc_ah sc)\<lparr>hal_calls := hal_calls (sc_ah sc) @
                                            [SetInterrupts 0, SetStaBeaconTimers,
                                             SetInterrupts (sc_imask sc OR HAL_INT_BMISS P)]\<rparr>,
                                          sc_imask := sc_imask sc OR HAL_INT_BMISS P\<rparr>,
                                  Some bs)))
                else
                  (case ap_beacon_config P ok tsf sc intval nexttbtt of
                     None \<Rightarrow> None
                   | Some (Inl e) \<Rightarrow> Some (Inl e)
                   | Some (Inr sc1) \<Rightarrow> Some (Inr (sc1, None))))))"

text \<open>\<open>ath_beacon_sync\<close>, lines 1043-1051.\<close>

definition ath_beacon_sync ::
  "ath_params \<Rightarrow> bool \<Rightarrow> 64 word \<Rightarrow> ath_softc \<Rightarrow> int \<Rightarrow> (beacon_error + ath_softc) option" where
  "ath_beacon_sync P ok tsf sc if_id =
     (case ath_beacon_config P ok tsf sc if_id of
        None \<Rightarrow> None
      | Some (Inl e) \<Rightarrow> Some (Inl e)
      | Some (Inr (sc1, bs)) \<Rightarrow> Some (Inr (sc1\<lparr>sc_beacons := True\<rparr>)))"

section \<open>Properties\<close>

subsection \<open>States and predicates used in the statements\<close>

text \<open>
  A state for concrete runs: an access point with staggered beacons, four empty slots,
  four free buffers and four interfaces without beacon state.
\<close>

definition ex_txq :: "nat \<Rightarrow> ath_txq" where
  "ex_txq q = \<lparr>axq_qnum = q, axq_q = [], axq_depth = 0, axq_totalqueued = 0,
               axq_linkbuf = None, axq_link = None\<rparr>"

definition ex_vap :: ath_vap where
  "ex_vap = \<lparr>av_opmode = HAL_M_HOSTAP, av_bcbuf = None, av_bslot = - 1, av_mcastq = ex_txq 0\<rparr>"

definition ex_buf :: "nat \<Rightarrow> ath_buf" where
  "ex_buf b = \<lparr>bf_mpdu = None, bf_daddr = 4096 + 256 * word_of_nat b, ds_link = 0\<rparr>"

definition ex_sc :: ath_softc where
  "ex_sc =
     \<lparr>sc_ah = \<lparr>hal_calls = []\<rparr>, sc_opmode = HAL_M_HOSTAP, sc_hasveol = False,
      sc_stagbeacons = True, sc_nostabeacons = False, sc_noreset = False,
      sc_diversity = False, sc_bslot = [255, 255, 255, 255], sc_nbcnvaps = 0, sc_nvaps = 2,
      sc_bbuf = [0, 1, 2, 3], sc_bufs = ex_buf,
      sc_vaps = (\<lambda>i. if 0 \<le> i \<and> i < 4 then Some ex_vap else None),
      sc_cabq = ex_txq 8, sc_bhalq = 9, sc_bmisscount = 0, sc_updateslot = OK,
      sc_slotupdate = 0, sc_defant = 1, sc_ant_tx = (\<lambda>a. 0), ast_be_xmit = 0, sc_imask = 0,
      sc_beacons = False, sc_calls = []\<rparr>"

text \<open>Slot \<open>s\<close> and its right neighbour are both empty.\<close>

definition double_slot :: "ath_params \<Rightarrow> int list \<Rightarrow> nat \<Rightarrow> bool" where
  "double_slot P bslot s \<longleftrightarrow>
     s + 1 < ATH_BCBUF P \<and> bslot ! s = ATH_IF_ID_ANY P \<and> bslot ! (s + 1) = ATH_IF_ID_ANY P"

text \<open>
  The slot as the specification words it: the first empty slot from the left, or its
  right neighbour when that is empty too.
\<close>

definition spec_first_empty :: "ath_params \<Rightarrow> int list \<Rightarrow> nat option" where
  "spec_first_empty P bslot = find (\<lambda>s. bslot ! s = ATH_IF_ID_ANY P) [0..<ATH_BCBUF P]"

definition spec_bslot :: "ath_params \<Rightarrow> int list \<Rightarrow> int option" where
  "spec_bslot P bslot =
     (case spec_first_empty P bslot of
        None \<Rightarrow> None
      | Some s \<Rightarrow>
          Some (if s + 1 < ATH_BCBUF P \<and> bslot ! (s + 1) = ATH_IF_ID_ANY P
                then int (s + 1) else int s))"

text \<open>
  Sequences of allocations and releases of beacon state.  An allocation comes with the
  frame \<^verbatim>\<open>ath_get_beacon\<close> returns for it.  The run stops where the program does.
\<close>

datatype beacon_op = Alloc int "sk_buff option" | Return int

fun apply_op :: "ath_params \<Rightarrow> beacon_op \<Rightarrow> ath_softc \<Rightarrow> beacon_error + ath_softc" where
  "apply_op P (Alloc i gb) sc =
     (case ath_beacon_alloc P sc i gb of Inl e \<Rightarrow> Inl e | Inr (sc1, r) \<Rightarrow> Inr sc1)"
| "apply_op P (Return i) sc = ath_beacon_return P sc i"

fun apply_ops :: "ath_params \<Rightarrow> beacon_op list \<Rightarrow> ath_softc \<Rightarrow> beacon_error + ath_softc" where
  "apply_ops P [] sc = Inr sc"
| "apply_ops P (x # xs) sc =
     (case apply_op P x sc of Inl e \<Rightarrow> Inl e | Inr sc1 \<Rightarrow> apply_ops P xs sc1)"

text \<open>
  The invariant of the slot table.  The table has \<^verbatim>\<open>ATH_BCBUF\<close> entries and the
  sentinel names no interface.  An occupied slot \<open>s\<close> holds an interface that has beacon
  state and whose \<^verbatim>\<open>av_bslot\<close> is \<open>s\<close>.  Where slots are managed, an interface with
  beacon state is the entry of the slot it records; where they are not, every interface
  has slot index \<open>-1\<close>.
\<close>

definition bslot_inv :: "ath_params \<Rightarrow> ath_softc \<Rightarrow> bool" where
  "bslot_inv P sc \<longleftrightarrow>
     length (sc_bslot sc) = ATH_BCBUF P \<and>
     sc_vaps sc (ATH_IF_ID_ANY P) = None \<and>
     (\<forall>s<ATH_BCBUF P. sc_bslot sc ! s \<noteq> ATH_IF_ID_ANY P \<longrightarrow>
        (\<exists>avp. sc_vaps sc (sc_bslot sc ! s) = Some avp \<and> av_bcbuf avp \<noteq> None \<and>
               av_bslot avp = int s)) \<and>
     (\<forall>i avp. sc_vaps sc i = Some avp \<longrightarrow>
        (if slot_managed sc
         then av_bcbuf avp \<noteq> None \<longrightarrow>
              0 \<le> av_bslot avp \<and> nat (av_bslot avp) < ATH_BCBUF P \<and>
              sc_bslot sc ! nat (av_bslot avp) = i
         else av_bslot avp = - 1))"

text \<open>A frame of 40 bytes, and a run on the example state.\<close>

definition ex_frame :: sk_buff where
  "ex_frame = \<lparr>skb_data = replicate 40 0\<rparr>"

definition ex_ops :: "beacon_op list" where
  "ex_ops = [Alloc 0 (Some ex_frame), Alloc 1 (Some ex_frame), Return 0, Alloc 2 (Some ex_frame)]"

text \<open>
  The bookkeeping of a transmit queue is consistent when its link pointer is \<^verbatim>\<open>NULL\<close>
  for an empty list and points to the link field of the last buffer otherwise.
\<close>

definition txq_consistent :: "ath_txq \<Rightarrow> bool" where
  "txq_consistent q \<longleftrightarrow>
     axq_link q = (if axq_q q = [] then None else Some (last (axq_q q)))"

text \<open>A multicast queue with two frames and a CAB queue with one.\<close>

definition ex_mcastq :: ath_txq where
  "ex_mcastq = \<lparr>axq_qnum = 0, axq_q = [5, 6], axq_depth = 2, axq_totalqueued = 2,
                axq_linkbuf = Some 6, axq_link = Some 6\<rparr>"

definition ex_cabq :: ath_txq where
  "ex_cabq = \<lparr>axq_qnum = 8, axq_q = [3], axq_depth = 1, axq_totalqueued = 1,
              axq_linkbuf = Some 3, axq_link = Some 3\<rparr>"

text \<open>
  Answers of the hardware for a run: nothing pending, clock 0, every refreshed beacon
  announces multicast traffic.  And a state at a DTIM beacon: interface 0 owns buffer 0
  with a frame, has two multicast frames queued, and the CAB queue still holds a frame.
\<close>

definition ex_env :: tasklet_env where
  "ex_env = \<lparr>numtxpending = 0, gettsf64 = 0, ath_update_beacon = (\<lambda>i d. (False, 1))\<rparr>"

definition ex_sc_dtim :: ath_softc where
  "ex_sc_dtim =
     ex_sc\<lparr>sc_bslot := [255, 0, 255, 255], sc_nbcnvaps := 1, sc_bbuf := [1, 2, 3],
           sc_bufs := ex_buf(0 := (ex_buf 0)\<lparr>bf_mpdu := Some ex_frame\<rparr>),
           sc_vaps := (sc_vaps ex_sc)
              (0 := Some (ex_vap\<lparr>av_bcbuf := Some 0, av_bslot := 1, av_mcastq := ex_mcastq\<rparr>)),
           sc_cabq := ex_cabq\<rparr>"

text \<open>How often \<^verbatim>\<open>ath_internal_reset\<close> has been called.\<close>

definition resets :: "ath_softc \<Rightarrow> nat" where
  "resets sc = count_list (sc_calls sc) InternalReset"

text \<open>Answers of the hardware with a frame still pending on the beacon queue.\<close>

definition ex_pending :: tasklet_env where
  "ex_pending = ex_env\<lparr>numtxpending := 1\<rparr>"

text \<open>A station: the state above in station mode.\<close>

definition ex_sta :: ath_softc where
  "ex_sta = ex_sc\<lparr>sc_opmode := HAL_M_STA\<rparr>"

subsection \<open>The slot search\<close>

lemma scan_step_empty:
  "slot < ATH_BCBUF P \<Longrightarrow> bslot ! slot = ATH_IF_ID_ANY P \<Longrightarrow>
   \<not> (slot + 1 < ATH_BCBUF P \<and> bslot ! (slot + 1) = ATH_IF_ID_ANY P) \<Longrightarrow>
   bslot_scan P bslot slot cur = bslot_scan P bslot (slot + 1) (int slot)"
  by (subst bslot_scan.simps) auto

lemma scan_step_full:
  "slot < ATH_BCBUF P \<Longrightarrow> bslot ! slot \<noteq> ATH_IF_ID_ANY P \<Longrightarrow>
   bslot_scan P bslot slot cur = bslot_scan P bslot (slot + 1) cur"
  by (subst bslot_scan.simps) auto

lemma bslot_scan_double:
  "slot \<le> d \<Longrightarrow> double_slot P bslot d \<Longrightarrow>
   (\<forall>s. slot \<le> s \<and> s < d \<longrightarrow> \<not> double_slot P bslot s) \<Longrightarrow>
   bslot_scan P bslot slot cur = int (d + 1)"
proof (induction P bslot slot cur rule: bslot_scan.induct)
  case (1 P bslot slot cur)
  show ?case
  proof (cases "slot = d")
    case True
    with "1.prems" show ?thesis
      by (subst bslot_scan.simps) (simp add: double_slot_def)
  next
    case False
    with "1.prems" have lt: "slot < d" by simp
    from "1.prems" have dlt: "d + 1 < ATH_BCBUF P" by (simp add: double_slot_def)
    then have slt: "slot < ATH_BCBUF P" using lt by simp
    from lt "1.prems" have nd: "\<not> double_slot P bslot slot" by simp
    have rest: "\<forall>s. slot + 1 \<le> s \<and> s < d \<longrightarrow> \<not> double_slot P bslot s"
      using "1.prems" by simp
    have le: "slot + 1 \<le> d" using lt by simp
    show ?thesis
    proof (cases "bslot ! slot = ATH_IF_ID_ANY P")
      case True
      with nd have nn: "\<not> (slot + 1 < ATH_BCBUF P \<and> bslot ! (slot + 1) = ATH_IF_ID_ANY P)"
        by (simp add: double_slot_def)
      show ?thesis
        using "1.IH"(1) [OF slt True nn le "1.prems"(2) rest] scan_step_empty [OF slt True nn]
        by simp
    next
      case False
      show ?thesis
        using "1.IH"(2) [OF slt False le "1.prems"(2) rest] scan_step_full [OF slt False]
        by simp
    qed
  qed
qed

lemma bslot_scan_single:
  "(\<forall>s. slot \<le> s \<longrightarrow> \<not> double_slot P bslot s) \<Longrightarrow>
   bslot_scan P bslot slot cur = r \<Longrightarrow>
   (if \<exists>s. slot \<le> s \<and> s < ATH_BCBUF P \<and> bslot ! s = ATH_IF_ID_ANY P
    then \<exists>s. r = int s \<and> slot \<le> s \<and> s < ATH_BCBUF P \<and> bslot ! s = ATH_IF_ID_ANY P \<and>
             (\<forall>t. s < t \<and> t < ATH_BCBUF P \<longrightarrow> bslot ! t \<noteq> ATH_IF_ID_ANY P)
    else r = cur)"
proof (induction P bslot slot cur arbitrary: r rule: bslot_scan.induct)
  case (1 P bslot slot cur)
  show ?case
  proof (cases "slot < ATH_BCBUF P")
    case False
    with "1.prems" show ?thesis
      by (subst (asm) bslot_scan.simps) auto
  next
    case lt: True
    have nd: "\<not> double_slot P bslot slot" using "1.prems" by simp
    have rest: "\<forall>s. slot + 1 \<le> s \<longrightarrow> \<not> double_slot P bslot s" using "1.prems" by simp
    show ?thesis
    proof (cases "bslot ! slot = ATH_IF_ID_ANY P")
      case True
      with nd have nn: "\<not> (slot + 1 < ATH_BCBUF P \<and> bslot ! (slot + 1) = ATH_IF_ID_ANY P)"
        by (simp add: double_slot_def)
      have r: "bslot_scan P bslot (slot + 1) (int slot) = r"
        using "1.prems"(2) scan_step_empty [OF lt True nn] by simp
      note ih = "1.IH"(1) [OF lt True nn rest r]
      show ?thesis
      proof (cases "\<exists>s. slot + 1 \<le> s \<and> s < ATH_BCBUF P \<and> bslot ! s = ATH_IF_ID_ANY P")
        case True
        with ih obtain s where "r = int s" "slot + 1 \<le> s" "s < ATH_BCBUF P"
          "bslot ! s = ATH_IF_ID_ANY P"
          "\<forall>t. s < t \<and> t < ATH_BCBUF P \<longrightarrow> bslot ! t \<noteq> ATH_IF_ID_ANY P" by auto
        then show ?thesis using lt by (auto intro!: exI [of _ s])
      next
        case False
        with ih have "r = int slot" by simp
        moreover have "\<forall>t. slot < t \<and> t < ATH_BCBUF P \<longrightarrow> bslot ! t \<noteq> ATH_IF_ID_ANY P"
          using False by (metis Suc_eq_plus1 Suc_leI)
        ultimately show ?thesis using lt True by (auto intro!: exI [of _ slot])
      qed
    next
      case False
      have r: "bslot_scan P bslot (slot + 1) cur = r"
        using "1.prems"(2) scan_step_full [OF lt False] by simp
      note ih = "1.IH"(2) [OF lt False rest r]
      have eq: "(\<exists>s. slot \<le> s \<and> s < ATH_BCBUF P \<and> bslot ! s = ATH_IF_ID_ANY P) =
                (\<exists>s. slot + 1 \<le> s \<and> s < ATH_BCBUF P \<and> bslot ! s = ATH_IF_ID_ANY P)"
        using False by (metis Suc_eq_plus1 Suc_leI le_neq_implies_less Suc_leD)
      show ?thesis
      proof (cases "\<exists>s. slot + 1 \<le> s \<and> s < ATH_BCBUF P \<and> bslot ! s = ATH_IF_ID_ANY P")
        case True
        with ih obtain s where "r = int s" "slot + 1 \<le> s" "s < ATH_BCBUF P"
          "bslot ! s = ATH_IF_ID_ANY P"
          "\<forall>t. s < t \<and> t < ATH_BCBUF P \<longrightarrow> bslot ! t \<noteq> ATH_IF_ID_ANY P" by auto
        then show ?thesis by (auto intro!: exI [of _ s])
      next
        case F2: False
        with ih have rc: "r = cur" by simp
        from F2 eq have "\<not> (\<exists>s. slot \<le> s \<and> s < ATH_BCBUF P \<and> bslot ! s = ATH_IF_ID_ANY P)"
          by blast
        with rc show ?thesis by (simp only: if_False)
      qed
    qed
  qed
qed

text \<open>
  The slot chosen from a table with an empty slot is an empty slot: the right one of
  the leftmost pair of adjacent empty slots, or without such a pair the last empty
  slot.
\<close>

lemma assign_bslot_choice:
  assumes "\<exists>s<ATH_BCBUF P. bslot ! s = ATH_IF_ID_ANY P"
  shows "\<exists>s<ATH_BCBUF P. assign_bslot P bslot = int s \<and> bslot ! s = ATH_IF_ID_ANY P \<and>
           (\<forall>d. double_slot P bslot d \<and> (\<forall>e<d. \<not> double_slot P bslot e) \<longrightarrow> s = d + 1) \<and>
           ((\<forall>d. \<not> double_slot P bslot d) \<longrightarrow>
              (\<forall>t. s < t \<and> t < ATH_BCBUF P \<longrightarrow> bslot ! t \<noteq> ATH_IF_ID_ANY P))"
proof (cases "\<exists>d. double_slot P bslot d")
  case True
  define d where "d = (LEAST d. double_slot P bslot d)"
  from True have dd: "double_slot P bslot d"
    unfolding d_def by (metis LeastI)
  have least: "\<forall>e<d. \<not> double_slot P bslot e"
    unfolding d_def using not_less_Least by blast
  have r: "assign_bslot P bslot = int (d + 1)"
    unfolding assign_bslot_def using bslot_scan_double [of 0 d P bslot 0] dd least by simp
  have uniq: "d' = d" if "double_slot P bslot d'" "\<forall>e<d'. \<not> double_slot P bslot e" for d'
    using that dd least by (meson linorder_neqE_nat)
  from dd have "d + 1 < ATH_BCBUF P" "bslot ! (d + 1) = ATH_IF_ID_ANY P"
    by (simp_all add: double_slot_def)
  with r uniq True show ?thesis
    by (intro exI [of _ "d + 1"]) auto
next
  case False
  then have nd: "\<forall>s. 0 \<le> s \<longrightarrow> \<not> double_slot P bslot s" by simp
  from assms have ex: "\<exists>s. 0 \<le> s \<and> s < ATH_BCBUF P \<and> bslot ! s = ATH_IF_ID_ANY P" by auto
  from bslot_scan_single [OF nd refl, of 0] ex
  obtain s where "bslot_scan P bslot 0 0 = int s" "s < ATH_BCBUF P" "bslot ! s = ATH_IF_ID_ANY P"
    "\<forall>t. s < t \<and> t < ATH_BCBUF P \<longrightarrow> bslot ! t \<noteq> ATH_IF_ID_ANY P"
    by (auto split: if_splits)
  with False show ?thesis
    unfolding assign_bslot_def by (intro exI [of _ s]) auto
qed

subsection \<open>C1: the slot an interface is given\<close>

text \<open>
  Claim C1, as the code has it.  When \<open>ath_beacon_alloc\<close> gives a slot to an interface
  (no beacon buffer yet, AP mode or no self-linked descriptors, a free buffer, a table
  with an empty slot), the slot \<open>s\<close> is an empty slot of the table, found from left to
  right: it is the right neighbour of the first empty slot whose right neighbour is
  empty too; when no two adjacent slots are empty, it is the last empty slot of the
  table (the loop keeps looking for a pair and records every single empty slot on its
  way).
\<close>

theorem alloc_slot_choice:
  assumes "av_bcbuf avp = None" and "slot_managed sc" and "sc_bbuf sc = b # rest"
    and "length (sc_bslot sc) = ATH_BCBUF P"
    and "\<exists>s<ATH_BCBUF P. sc_bslot sc ! s = ATH_IF_ID_ANY P"
  shows "\<exists>s<ATH_BCBUF P.
           alloc_bcbuf P sc if_id avp =
             Inr (sc\<lparr>sc_bbuf := rest, sc_bslot := (sc_bslot sc)[s := if_id],
                     sc_nbcnvaps := sc_nbcnvaps sc + 1\<rparr>,
                  avp\<lparr>av_bcbuf := Some b, av_bslot := int s\<rparr>, b) \<and>
           sc_bslot sc ! s = ATH_IF_ID_ANY P \<and>
           (\<forall>d. double_slot P (sc_bslot sc) d \<and> (\<forall>e<d. \<not> double_slot P (sc_bslot sc) e)
                \<longrightarrow> s = d + 1) \<and>
           ((\<forall>d. \<not> double_slot P (sc_bslot sc) d) \<longrightarrow>
              (\<forall>t. s < t \<and> t < ATH_BCBUF P \<longrightarrow> sc_bslot sc ! t \<noteq> ATH_IF_ID_ANY P))"
proof -
  from assign_bslot_choice [OF assms(5)]
  obtain s where s: "s < ATH_BCBUF P" "assign_bslot P (sc_bslot sc) = int s"
      "sc_bslot sc ! s = ATH_IF_ID_ANY P"
      "\<forall>d. double_slot P (sc_bslot sc) d \<and> (\<forall>e<d. \<not> double_slot P (sc_bslot sc) e) \<longrightarrow> s = d + 1"
      "(\<forall>d. \<not> double_slot P (sc_bslot sc) d) \<longrightarrow>
         (\<forall>t. s < t \<and> t < ATH_BCBUF P \<longrightarrow> sc_bslot sc ! t \<noteq> ATH_IF_ID_ANY P)"
    by blast
  have "alloc_bcbuf P sc if_id avp =
          Inr (sc\<lparr>sc_bbuf := rest, sc_bslot := (sc_bslot sc)[s := if_id],
                  sc_nbcnvaps := sc_nbcnvaps sc + 1\<rparr>,
               avp\<lparr>av_bcbuf := Some b, av_bslot := int s\<rparr>, b)"
    using assms(1-4) s(1-3) by (simp add: alloc_bcbuf_def Let_def)
  with s show ?thesis by blast
qed

theorem alloc_slot_choice_witness:
  "av_bslot (fst (snd (projr (alloc_bcbuf ath9k_params (ex_sc\<lparr>sc_bslot := [255, 0, 255, 255]\<rparr>) 1 ex_vap)))) = 3"
proof -
  let ?sc = "ex_sc\<lparr>sc_bslot := [255, 0, 255, 255]\<rparr>"
  have h1: "av_bcbuf ex_vap = None" by (simp add: ex_vap_def)
  have h2: "slot_managed ?sc" by (simp add: slot_managed_def ex_sc_def)
  have h3: "sc_bbuf ?sc = 0 # [1, 2, 3]" by (simp add: ex_sc_def)
  have h4: "length (sc_bslot ?sc) = ATH_BCBUF ath9k_params" by (simp add: ath9k_params_def)
  have h5: "\<exists>s<ATH_BCBUF ath9k_params. sc_bslot ?sc ! s = ATH_IF_ID_ANY ath9k_params"
    by (intro exI [of _ 0]) (simp add: ath9k_params_def)
  from alloc_slot_choice [OF h1 h2 h3 h4 h5, of 1]
  obtain s where s: "alloc_bcbuf ath9k_params ?sc 1 ex_vap =
             Inr (?sc\<lparr>sc_bbuf := [1, 2, 3], sc_bslot := (sc_bslot ?sc)[s := 1],
                     sc_nbcnvaps := sc_nbcnvaps ?sc + 1\<rparr>,
                  ex_vap\<lparr>av_bcbuf := Some 0, av_bslot := int s\<rparr>, 0)"
    and d: "\<forall>d. double_slot ath9k_params (sc_bslot ?sc) d \<and>
                (\<forall>e<d. \<not> double_slot ath9k_params (sc_bslot ?sc) e) \<longrightarrow> s = d + 1"
    by blast
  have "double_slot ath9k_params (sc_bslot ?sc) 2"
    by (simp add: double_slot_def ath9k_params_def)
  moreover have "\<forall>e<2. \<not> double_slot ath9k_params (sc_bslot ?sc) e"
    by (simp add: double_slot_def ath9k_params_def less_Suc_eq numeral_2_eq_2)
  ultimately have "s = 3" using d by force
  with s show ?thesis by simp
qed

text \<open>
  The claim as worded takes the first empty slot when its right neighbour is taken.
  On the table \<open>[empty, 0, empty, empty]\<close> the loop passes slot 0 and ends with slot 3
  of the pair behind it; on \<open>[empty, 0, empty, 1]\<close> it ends with slot 2, the last
  empty slot.  The wording gives slot 0 for both.
\<close>

theorem first_empty_slot_counterexample:
  "assign_bslot ath9k_params [255, 0, 255, 255] = 3 \<and>
   spec_bslot ath9k_params [255, 0, 255, 255] = Some 0 \<and>
   assign_bslot ath9k_params [255, 0, 255, 1] = 2 \<and>
   spec_bslot ath9k_params [255, 0, 255, 1] = Some 0"
  by (simp add: assign_bslot_def spec_bslot_def spec_first_empty_def ath9k_params_def
      bslot_scan.simps upt_rec)

subsection \<open>C10: releasing without a buffer or without a slot\<close>

text \<open>
  Claim C10.  For an interface without a beacon buffer \<open>ath_beacon_return\<close> leaves the
  whole driver state as it is, so the slot table, the count of beaconing interfaces
  and the buffer pool are unchanged.  For an interface with a buffer \<open>b\<close> and slot
  index \<open>-1\<close> the buffer is appended to the pool and detached from the interface, while
  the slot table and the count stay as they are.
\<close>

theorem return_without_buffer_or_slot:
  assumes "sc_vaps sc if_id = Some avp"
  shows "(av_bcbuf avp = None \<longrightarrow> ath_beacon_return P sc if_id = Inr sc) \<and>
         (\<forall>b. av_bcbuf avp = Some b \<and> av_bslot avp = - 1 \<longrightarrow>
            (\<exists>sc'. ath_beacon_return P sc if_id = Inr sc' \<and>
                   sc_bslot sc' = sc_bslot sc \<and>
                   sc_nbcnvaps sc' = sc_nbcnvaps sc \<and>
                   sc_bbuf sc' = sc_bbuf sc @ [b] \<and>
                   sc_vaps sc' = (sc_vaps sc)(if_id := Some (avp\<lparr>av_bcbuf := None\<rparr>))))"
  using assms
  by (auto simp: ath_beacon_return_def release_mpdu_def Let_def split: option.splits)

theorem return_without_buffer_or_slot_witness:
  "ath_beacon_return ath9k_params ex_sc 2 = Inr ex_sc \<and>
   sc_bbuf (projr (ath_beacon_return ath9k_params
      (ex_sc\<lparr>sc_bbuf := [1, 2, 3], sc_vaps := (sc_vaps ex_sc)(2 := Some (ex_vap\<lparr>av_bcbuf := Some 0\<rparr>))\<rparr>) 2))
     = [1, 2, 3, 0] \<and>
   sc_bslot (projr (ath_beacon_return ath9k_params
      (ex_sc\<lparr>sc_bbuf := [1, 2, 3], sc_vaps := (sc_vaps ex_sc)(2 := Some (ex_vap\<lparr>av_bcbuf := Some 0\<rparr>))\<rparr>) 2))
     = [255, 255, 255, 255]"
proof -
  let ?sc = "ex_sc\<lparr>sc_bbuf := [1, 2, 3], sc_vaps := (sc_vaps ex_sc)(2 := Some (ex_vap\<lparr>av_bcbuf := Some 0\<rparr>))\<rparr>"
  have h1: "sc_vaps ex_sc 2 = Some ex_vap" by (simp add: ex_sc_def)
  have n1: "av_bcbuf ex_vap = None" by (simp add: ex_vap_def)
  have h2: "sc_vaps ?sc 2 = Some (ex_vap\<lparr>av_bcbuf := Some 0\<rparr>)" by simp
  have n2: "av_bcbuf (ex_vap\<lparr>av_bcbuf := Some 0\<rparr>) = Some 0 \<and> av_bslot (ex_vap\<lparr>av_bcbuf := Some 0\<rparr>) = - 1"
    by (simp add: ex_vap_def)
  from return_without_buffer_or_slot [OF h1, of ath9k_params] n1
  have a: "ath_beacon_return ath9k_params ex_sc 2 = Inr ex_sc" by blast
  from return_without_buffer_or_slot [OF h2, of ath9k_params] n2
  obtain sc' where "ath_beacon_return ath9k_params ?sc 2 = Inr sc'"
    "sc_bslot sc' = sc_bslot ?sc" "sc_bbuf sc' = sc_bbuf ?sc @ [0]" by blast
  with a show ?thesis by (simp add: ex_sc_def)
qed

subsection \<open>C8: the invariant of the slot table\<close>

lemma inv_len: "bslot_inv P sc \<Longrightarrow> length (sc_bslot sc) = ATH_BCBUF P"
  by (simp add: bslot_inv_def)

lemma inv_any: "bslot_inv P sc \<Longrightarrow> sc_vaps sc i = Some avp \<Longrightarrow> i \<noteq> ATH_IF_ID_ANY P"
  by (auto simp: bslot_inv_def)

lemma inv_occupied:
  "bslot_inv P sc \<Longrightarrow> s < ATH_BCBUF P \<Longrightarrow> sc_bslot sc ! s \<noteq> ATH_IF_ID_ANY P \<Longrightarrow>
   \<exists>avp. sc_vaps sc (sc_bslot sc ! s) = Some avp \<and> av_bcbuf avp \<noteq> None \<and> av_bslot avp = int s"
  by (simp add: bslot_inv_def)

lemma inv_managed:
  "bslot_inv P sc \<Longrightarrow> slot_managed sc \<Longrightarrow> sc_vaps sc i = Some avp \<Longrightarrow> av_bcbuf avp \<noteq> None \<Longrightarrow>
   0 \<le> av_bslot avp \<and> nat (av_bslot avp) < ATH_BCBUF P \<and> sc_bslot sc ! nat (av_bslot avp) = i"
  unfolding bslot_inv_def by (metis (full_types))

lemma inv_unmanaged:
  "bslot_inv P sc \<Longrightarrow> \<not> slot_managed sc \<Longrightarrow> sc_vaps sc i = Some avp \<Longrightarrow> av_bslot avp = - 1"
  unfolding bslot_inv_def by (metis (full_types))

lemma inv_unmanaged_empty:
  assumes "bslot_inv P sc" and "\<not> slot_managed sc" and "s < ATH_BCBUF P"
  shows "sc_bslot sc ! s = ATH_IF_ID_ANY P"
proof (rule ccontr)
  assume "sc_bslot sc ! s \<noteq> ATH_IF_ID_ANY P"
  from inv_occupied [OF assms(1,3) this] obtain avp where
    "sc_vaps sc (sc_bslot sc ! s) = Some avp" "av_bslot avp = int s" by blast
  with inv_unmanaged [OF assms(1,2)] show False by fastforce
qed

lemma bslot_invI:
  assumes "length (sc_bslot sc) = ATH_BCBUF P" and "sc_vaps sc (ATH_IF_ID_ANY P) = None"
    and "\<And>s. s < ATH_BCBUF P \<Longrightarrow> sc_bslot sc ! s \<noteq> ATH_IF_ID_ANY P \<Longrightarrow>
           \<exists>avp. sc_vaps sc (sc_bslot sc ! s) = Some avp \<and> av_bcbuf avp \<noteq> None \<and>
                 av_bslot avp = int s"
    and "\<And>i avp. slot_managed sc \<Longrightarrow> sc_vaps sc i = Some avp \<Longrightarrow> av_bcbuf avp \<noteq> None \<Longrightarrow>
           0 \<le> av_bslot avp \<and> nat (av_bslot avp) < ATH_BCBUF P \<and>
           sc_bslot sc ! nat (av_bslot avp) = i"
    and "\<And>i avp. \<not> slot_managed sc \<Longrightarrow> sc_vaps sc i = Some avp \<Longrightarrow> av_bslot avp = - 1"
  shows "bslot_inv P sc"
  unfolding bslot_inv_def using assms by auto

lemma bslot_inv_cong:
  "sc_bslot sc' = sc_bslot sc \<Longrightarrow> sc_vaps sc' = sc_vaps sc \<Longrightarrow>
   sc_opmode sc' = sc_opmode sc \<Longrightarrow> sc_hasveol sc' = sc_hasveol sc \<Longrightarrow>
   bslot_inv P sc' = bslot_inv P sc"
  by (simp add: bslot_inv_def slot_managed_def)

lemma release_mpdu_fields [simp]:
  "sc_bslot (release_mpdu sc b) = sc_bslot sc"
  "sc_vaps (release_mpdu sc b) = sc_vaps sc"
  "sc_nbcnvaps (release_mpdu sc b) = sc_nbcnvaps sc"
  "sc_bbuf (release_mpdu sc b) = sc_bbuf sc"
  "sc_opmode (release_mpdu sc b) = sc_opmode sc"
  "sc_hasveol (release_mpdu sc b) = sc_hasveol sc"
  "sc_stagbeacons (release_mpdu sc b) = sc_stagbeacons sc"
  by (simp_all add: release_mpdu_def split: option.splits)

lemma alloc_bcbuf_managed:
  "av_bcbuf avp = None \<Longrightarrow> sc_bbuf sc = b # rest \<Longrightarrow> slot_managed sc \<Longrightarrow>
   alloc_bcbuf P sc i avp =
     (if \<not> (0 \<le> assign_bslot P (sc_bslot sc) \<and>
              nat (assign_bslot P (sc_bslot sc)) < length (sc_bslot sc)) then Inl OutOfBounds
      else if sc_bslot sc ! nat (assign_bslot P (sc_bslot sc)) \<noteq> ATH_IF_ID_ANY P
      then Inl AssertFailed
      else Inr (sc\<lparr>sc_bbuf := rest, sc_bslot := (sc_bslot sc)[nat (assign_bslot P (sc_bslot sc)) := i],
                   sc_nbcnvaps := sc_nbcnvaps sc + 1\<rparr>,
                avp\<lparr>av_bcbuf := Some b, av_bslot := assign_bslot P (sc_bslot sc)\<rparr>, b))"
  by (simp add: alloc_bcbuf_def Let_def)

lemma alloc_bcbuf_unmanaged:
  "av_bcbuf avp = None \<Longrightarrow> sc_bbuf sc = b # rest \<Longrightarrow> \<not> slot_managed sc \<Longrightarrow>
   alloc_bcbuf P sc i avp = Inr (sc\<lparr>sc_bbuf := rest\<rparr>, avp\<lparr>av_bcbuf := Some b\<rparr>, b)"
  by (simp add: alloc_bcbuf_def Let_def)

lemma alloc_bcbuf_pool:
  "av_bcbuf avp = None \<Longrightarrow> alloc_bcbuf P sc i avp = Inr (sc1, avp1, b) \<Longrightarrow>
   \<exists>rest. sc_bbuf sc = b # rest"
  by (cases "sc_bbuf sc"; cases "slot_managed sc")
     (simp_all add: alloc_bcbuf_def Let_def split: if_splits)

lemma alloc_bcbuf_inv:
  assumes inv: "bslot_inv P sc" and v: "sc_vaps sc i = Some avp"
    and a: "alloc_bcbuf P sc i avp = Inr (sc1, avp1, b)"
  shows "bslot_inv P (sc1\<lparr>sc_vaps := (sc_vaps sc1)(i := Some avp1)\<rparr>)"
proof (cases "av_bcbuf avp")
  case (Some b')
  with a have "sc1 = sc" "avp1 = avp" "b = b'" by (simp_all add: alloc_bcbuf_def)
  moreover have "(sc_vaps sc)(i := Some avp) = sc_vaps sc" using v by auto
  ultimately show ?thesis using inv by simp
next
  case None
  from alloc_bcbuf_pool [OF None a] obtain rest where pool: "sc_bbuf sc = b # rest" by blast
  note iany = inv_any [OF inv v]
  note len = inv_len [OF inv]
  let ?sc' = "sc1\<lparr>sc_vaps := (sc_vaps sc1)(i := Some avp1)\<rparr>"
  show ?thesis
  proof (cases "slot_managed sc")
    case False
    note eq = a [unfolded alloc_bcbuf_unmanaged [OF None pool False, of P i]]
    then have sc1: "sc1 = sc\<lparr>sc_bbuf := rest\<rparr>" and avp1: "avp1 = avp\<lparr>av_bcbuf := Some b\<rparr>"
      by simp_all
    have bs: "sc_bslot ?sc' = sc_bslot sc" and vs: "sc_vaps ?sc' = (sc_vaps sc)(i := Some avp1)"
      and man: "slot_managed ?sc' = slot_managed sc"
      using sc1 by (simp_all add: slot_managed_def)
    show ?thesis
    proof (rule bslot_invI)
      show "length (sc_bslot ?sc') = ATH_BCBUF P" using len bs by simp
      show "sc_vaps ?sc' (ATH_IF_ID_ANY P) = None"
        using inv iany vs by (simp add: bslot_inv_def)
    next
      fix s assume "s < ATH_BCBUF P" "sc_bslot ?sc' ! s \<noteq> ATH_IF_ID_ANY P"
      with inv_unmanaged_empty [OF inv False] bs
      show "\<exists>avp. sc_vaps ?sc' (sc_bslot ?sc' ! s) = Some avp \<and> av_bcbuf avp \<noteq> None \<and>
                  av_bslot avp = int s" by simp
    next
      fix j avp' assume "slot_managed ?sc'"
      with man False
      show "0 \<le> av_bslot avp' \<and> nat (av_bslot avp') < ATH_BCBUF P \<and>
            sc_bslot ?sc' ! nat (av_bslot avp') = j" by simp
    next
      fix j avp' assume j: "sc_vaps ?sc' j = Some avp'"
      show "av_bslot avp' = - 1"
      proof (cases "j = i")
        case True
        with j vs have "avp' = avp1" by simp
        with avp1 inv_unmanaged [OF inv False v] show ?thesis by simp
      next
        case F: False
        with j vs have "sc_vaps sc j = Some avp'" by simp
        from inv_unmanaged [OF inv False this] show ?thesis .
      qed
    qed
  next
    case man: True
    define slot where "slot = assign_bslot P (sc_bslot sc)"
    note eq = a [unfolded alloc_bcbuf_managed [OF None pool man, of P i], folded slot_def]
    from eq have ok: "0 \<le> slot" "nat slot < length (sc_bslot sc)"
      "sc_bslot sc ! nat slot = ATH_IF_ID_ANY P"
      by (simp_all split: if_splits)
    with eq have sc1: "sc1 = sc\<lparr>sc_bbuf := rest, sc_bslot := (sc_bslot sc)[nat slot := i],
                          sc_nbcnvaps := sc_nbcnvaps sc + 1\<rparr>"
      and avp1: "avp1 = avp\<lparr>av_bcbuf := Some b, av_bslot := slot\<rparr>"
      by simp_all
    have bs: "sc_bslot ?sc' = (sc_bslot sc)[nat slot := i]"
      and vs: "sc_vaps ?sc' = (sc_vaps sc)(i := Some avp1)"
      and man': "slot_managed ?sc'"
      using sc1 man by (simp_all add: slot_managed_def)
    show ?thesis
    proof (rule bslot_invI)
      show "length (sc_bslot ?sc') = ATH_BCBUF P" using len bs by simp
      show "sc_vaps ?sc' (ATH_IF_ID_ANY P) = None"
        using inv iany vs by (simp add: bslot_inv_def)
    next
      fix s assume s: "s < ATH_BCBUF P" "sc_bslot ?sc' ! s \<noteq> ATH_IF_ID_ANY P"
      show "\<exists>avp. sc_vaps ?sc' (sc_bslot ?sc' ! s) = Some avp \<and> av_bcbuf avp \<noteq> None \<and>
                  av_bslot avp = int s"
      proof (cases "s = nat slot")
        case True
        then show ?thesis unfolding bs vs using avp1 ok by simp
      next
        case False
        with s bs have ne: "sc_bslot sc ! s \<noteq> ATH_IF_ID_ANY P" by simp
        from inv_occupied [OF inv s(1) ne] obtain avp' where
          avp': "sc_vaps sc (sc_bslot sc ! s) = Some avp'"
          "av_bcbuf avp' \<noteq> None" "av_bslot avp' = int s" by blast
        have "sc_bslot sc ! s \<noteq> i" using avp' v None by auto
        then show ?thesis unfolding bs vs using avp' False by simp
      qed
    next
      fix j avp' assume j: "sc_vaps ?sc' j = Some avp'" "av_bcbuf avp' \<noteq> None"
      show "0 \<le> av_bslot avp' \<and> nat (av_bslot avp') < ATH_BCBUF P \<and>
            sc_bslot ?sc' ! nat (av_bslot avp') = j"
      proof (cases "j = i")
        case True
        with j vs have "avp' = avp1" by simp
        then show ?thesis unfolding bs using avp1 ok len True by simp
      next
        case False
        with j vs have old: "sc_vaps sc j = Some avp'" by simp
        from inv_managed [OF inv man old j(2)]
        have o: "0 \<le> av_bslot avp'" "nat (av_bslot avp') < ATH_BCBUF P"
          "sc_bslot sc ! nat (av_bslot avp') = j" by simp_all
        note jany = inv_any [OF inv old]
        with o ok have "nat (av_bslot avp') \<noteq> nat slot" by auto
        with o show ?thesis unfolding bs by simp
      qed
    next
      fix j avp' assume "\<not> slot_managed ?sc'"
      with man' show "av_bslot avp' = - 1" by simp
    qed
  qed
qed

lemma ath_beacon_alloc_inv:
  assumes inv: "bslot_inv P sc" and a: "ath_beacon_alloc P sc i gb = Inr (sc', r)"
  shows "bslot_inv P sc'"
proof -
  from a obtain avp where v: "sc_vaps sc i = Some avp"
    by (cases "sc_vaps sc i") (simp_all add: ath_beacon_alloc_def)
  from a v obtain sc1 avp1 b where ab: "alloc_bcbuf P sc i avp = Inr (sc1, avp1, b)"
    by (cases "alloc_bcbuf P sc i avp") (auto simp: ath_beacon_alloc_def)
  let ?sc1 = "sc1\<lparr>sc_vaps := (sc_vaps sc1)(i := Some avp1)\<rparr>"
  note step = alloc_bcbuf_inv [OF inv v ab]
  have f: "sc_bslot sc' = sc_bslot ?sc1 \<and> sc_vaps sc' = sc_vaps ?sc1 \<and>
           sc_opmode sc' = sc_opmode ?sc1 \<and> sc_hasveol sc' = sc_hasveol ?sc1"
    using a v ab
    by (cases gb; cases "sc_stagbeacons sc1 \<and> 0 < av_bslot avp1")
       (auto simp: ath_beacon_alloc_def Let_def split: sum.splits)
  then have "bslot_inv P sc' = bslot_inv P ?sc1" by (intro bslot_inv_cong) simp_all
  with step show ?thesis by simp
qed

lemma ath_beacon_return_slot:
  assumes inv: "bslot_inv P sc" and man: "slot_managed sc"
    and v: "sc_vaps sc i = Some avp" and bc: "av_bcbuf avp = Some b"
  shows "\<exists>sc'. ath_beacon_return P sc i = Inr sc' \<and>
           sc_bslot sc' = (sc_bslot sc)[nat (av_bslot avp) := ATH_IF_ID_ANY P] \<and>
           sc_nbcnvaps sc' = sc_nbcnvaps sc - 1 \<and>
           sc_vaps sc' = (sc_vaps sc)(i := Some (avp\<lparr>av_bcbuf := None\<rparr>)) \<and>
           sc_opmode sc' = sc_opmode sc \<and> sc_hasveol sc' = sc_hasveol sc"
proof -
  from inv_managed [OF inv man v] bc
  have o: "0 \<le> av_bslot avp" "nat (av_bslot avp) < ATH_BCBUF P" by simp_all
  with inv_len [OF inv] show ?thesis using v bc
    by (simp add: ath_beacon_return_def Let_def)
qed

lemma return_update_inv:
  assumes inv: "bslot_inv P sc" and man: "slot_managed sc"
    and v: "sc_vaps sc i = Some avp" and bc: "av_bcbuf avp = Some b"
    and bs: "sc_bslot sc' = (sc_bslot sc)[nat (av_bslot avp) := ATH_IF_ID_ANY P]"
    and vs: "sc_vaps sc' = (sc_vaps sc)(i := Some (avp\<lparr>av_bcbuf := None\<rparr>))"
    and man': "slot_managed sc'"
  shows "bslot_inv P sc'"
proof (rule bslot_invI)
  from inv_managed [OF inv man v] bc
  have o: "0 \<le> av_bslot avp" "nat (av_bslot avp) < ATH_BCBUF P"
    "sc_bslot sc ! nat (av_bslot avp) = i" by simp_all
  note len = inv_len [OF inv]
  note iany = inv_any [OF inv v]
  show "length (sc_bslot sc') = ATH_BCBUF P" using len bs by simp
  show "sc_vaps sc' (ATH_IF_ID_ANY P) = None" using inv iany vs by (simp add: bslot_inv_def)
  show "\<exists>avp'. sc_vaps sc' (sc_bslot sc' ! s) = Some avp' \<and> av_bcbuf avp' \<noteq> None \<and>
                av_bslot avp' = int s"
    if s: "s < ATH_BCBUF P" "sc_bslot sc' ! s \<noteq> ATH_IF_ID_ANY P" for s
  proof -
    have ne: "s \<noteq> nat (av_bslot avp)" using s bs o len by auto
    with s bs have occ: "sc_bslot sc ! s \<noteq> ATH_IF_ID_ANY P" by simp
    from inv_occupied [OF inv s(1) occ] obtain avp' where
      avp': "sc_vaps sc (sc_bslot sc ! s) = Some avp'"
      "av_bcbuf avp' \<noteq> None" "av_bslot avp' = int s" by blast
    have "sc_bslot sc ! s \<noteq> i"
    proof
      assume "sc_bslot sc ! s = i"
      with avp' v have "av_bslot avp = int s" by simp
      with ne show False by simp
    qed
    then show ?thesis unfolding bs vs using avp' ne by simp
  qed
  show "0 \<le> av_bslot avp' \<and> nat (av_bslot avp') < ATH_BCBUF P \<and>
            sc_bslot sc' ! nat (av_bslot avp') = j"
    if j: "sc_vaps sc' j = Some avp'" "av_bcbuf avp' \<noteq> None" for j avp'
  proof -
    have ji: "j \<noteq> i" using j vs by auto
    with j vs have old: "sc_vaps sc j = Some avp'" by simp
    from inv_managed [OF inv man old j(2)]
    have p: "0 \<le> av_bslot avp'" "nat (av_bslot avp') < ATH_BCBUF P"
      "sc_bslot sc ! nat (av_bslot avp') = j" by simp_all
    with o ji have "nat (av_bslot avp') \<noteq> nat (av_bslot avp)" by auto
    with p show ?thesis unfolding bs by simp
  qed
  show "av_bslot avp' = - 1" if "\<not> slot_managed sc'" for avp'
    using that man' by simp
qed

lemma return_unmanaged:
  assumes inv: "bslot_inv P sc" and man: "\<not> slot_managed sc"
    and v: "sc_vaps sc i = Some avp" and bc: "av_bcbuf avp = Some b"
  shows "\<exists>sc'. ath_beacon_return P sc i = Inr sc' \<and> sc_bslot sc' = sc_bslot sc \<and>
           sc_vaps sc' = (sc_vaps sc)(i := Some (avp\<lparr>av_bcbuf := None\<rparr>)) \<and>
           sc_opmode sc' = sc_opmode sc \<and> sc_hasveol sc' = sc_hasveol sc"
  using inv_unmanaged [OF inv man v] v bc
  by (simp add: ath_beacon_return_def Let_def)

lemma ath_beacon_return_inv:
  assumes inv: "bslot_inv P sc" and r: "ath_beacon_return P sc i = Inr sc'"
  shows "bslot_inv P sc'"
proof -
  from r obtain avp where v: "sc_vaps sc i = Some avp"
    by (cases "sc_vaps sc i") (simp_all add: ath_beacon_return_def)
  show ?thesis
  proof (cases "av_bcbuf avp")
    case None
    with r v have "sc' = sc" by (simp add: ath_beacon_return_def)
    with inv show ?thesis by simp
  next
    case (Some b)
    show ?thesis
    proof (cases "slot_managed sc")
      case True
      from ath_beacon_return_slot [OF inv True v Some] r
      have f: "sc_bslot sc' = (sc_bslot sc)[nat (av_bslot avp) := ATH_IF_ID_ANY P]"
        "sc_vaps sc' = (sc_vaps sc)(i := Some (avp\<lparr>av_bcbuf := None\<rparr>))"
        "sc_opmode sc' = sc_opmode sc" "sc_hasveol sc' = sc_hasveol sc"
        by auto
      then have "slot_managed sc'" using True by (simp add: slot_managed_def)
      from return_update_inv [OF inv True v Some f(1,2) this] show ?thesis .
    next
      case False
      from return_unmanaged [OF inv False v Some] r
      have f: "sc_bslot sc' = sc_bslot sc"
        "sc_vaps sc' = (sc_vaps sc)(i := Some (avp\<lparr>av_bcbuf := None\<rparr>))"
        "sc_opmode sc' = sc_opmode sc" "sc_hasveol sc' = sc_hasveol sc"
        by auto
      then have man': "\<not> slot_managed sc'" using False by (simp add: slot_managed_def)
      show ?thesis
      proof (rule bslot_invI)
        show "length (sc_bslot sc') = ATH_BCBUF P" using inv_len [OF inv] f by simp
        show "sc_vaps sc' (ATH_IF_ID_ANY P) = None"
          using inv inv_any [OF inv v] f by (simp add: bslot_inv_def)
        show "\<exists>avp. sc_vaps sc' (sc_bslot sc' ! s) = Some avp \<and> av_bcbuf avp \<noteq> None \<and>
                av_bslot avp = int s"
          if "s < ATH_BCBUF P" "sc_bslot sc' ! s \<noteq> ATH_IF_ID_ANY P" for s
          using that inv_unmanaged_empty [OF inv False] f by simp
        show "0 \<le> av_bslot avp' \<and> nat (av_bslot avp') < ATH_BCBUF P \<and>
            sc_bslot sc' ! nat (av_bslot avp') = j" if "slot_managed sc'" for j avp'
          using that man' by simp
        show "av_bslot avp' = - 1" if "sc_vaps sc' j = Some avp'" for j avp'
        proof (cases "j = i")
          case True
          with that f have "avp' = avp\<lparr>av_bcbuf := None\<rparr>" by simp
          with inv_unmanaged [OF inv False v] show ?thesis by simp
        next
          case F: False
          with that f have "sc_vaps sc j = Some avp'" by simp
          from inv_unmanaged [OF inv False this] show ?thesis .
        qed
      qed
    qed
  qed
qed

lemma apply_ops_inv:
  "bslot_inv P sc \<Longrightarrow> apply_ops P ops sc = Inr sc' \<Longrightarrow> bslot_inv P sc'"
proof (induction ops arbitrary: sc)
  case Nil
  then show ?case by simp
next
  case (Cons x xs)
  from Cons.prems(2) obtain sc1 where s1: "apply_op P x sc = Inr sc1"
    and rest: "apply_ops P xs sc1 = Inr sc'"
    by (cases "apply_op P x sc") simp_all
  have "bslot_inv P sc1"
  proof (cases x)
    case (Alloc i gb)
    with s1 obtain r where "ath_beacon_alloc P sc i gb = Inr (sc1, r)"
      by (cases "ath_beacon_alloc P sc i gb") auto
    from ath_beacon_alloc_inv [OF Cons.prems(1) this] show ?thesis .
  next
    case (Return i)
    with s1 have "ath_beacon_return P sc i = Inr sc1" by simp
    from ath_beacon_return_inv [OF Cons.prems(1) this] show ?thesis .
  qed
  with Cons.IH rest show ?case by blast
qed

text \<open>
  Claim C8.  A sequence of calls of \<open>ath_beacon_alloc\<close> and \<open>ath_beacon_return\<close> that
  starts in a state with the invariant and runs to its end leaves a state with the
  invariant.  There no interface is the entry of two slots, no two interfaces with
  beacon state record the same slot, an interface with beacon state (slots being
  managed: AP mode, or no self-linked descriptors) is the entry of exactly one slot,
  and releasing it sets that slot to the sentinel, decrements \<^verbatim>\<open>sc_nbcnvaps\<close> and
  keeps the invariant, so that the sequence can go on with an allocation of that slot.
\<close>

theorem slot_table_invariant:
  assumes "bslot_inv P sc" and "apply_ops P ops sc = Inr sc'"
  shows "bslot_inv P sc' \<and>
    (\<forall>s t. s < ATH_BCBUF P \<and> t < ATH_BCBUF P \<and> sc_bslot sc' ! s \<noteq> ATH_IF_ID_ANY P \<and>
        sc_bslot sc' ! s = sc_bslot sc' ! t \<longrightarrow> s = t) \<and>
    (\<forall>i j avp avp'. slot_managed sc' \<and> i \<noteq> j \<and> sc_vaps sc' i = Some avp \<and>
        sc_vaps sc' j = Some avp' \<and> av_bcbuf avp \<noteq> None \<and> av_bcbuf avp' \<noteq> None \<longrightarrow>
        av_bslot avp \<noteq> av_bslot avp') \<and>
    (\<forall>i avp. slot_managed sc' \<and> sc_vaps sc' i = Some avp \<and> av_bcbuf avp \<noteq> None \<longrightarrow>
        (\<exists>!s. s < ATH_BCBUF P \<and> sc_bslot sc' ! s = i)) \<and>
    (\<forall>i avp b. slot_managed sc' \<and> sc_vaps sc' i = Some avp \<and> av_bcbuf avp = Some b \<longrightarrow>
        (\<exists>sc''. ath_beacon_return P sc' i = Inr sc'' \<and>
           sc_bslot sc'' = (sc_bslot sc')[nat (av_bslot avp) := ATH_IF_ID_ANY P] \<and>
           sc_bslot sc'' ! nat (av_bslot avp) = ATH_IF_ID_ANY P \<and>
           sc_nbcnvaps sc'' = sc_nbcnvaps sc' - 1 \<and> bslot_inv P sc''))"
proof -
  from apply_ops_inv [OF assms] have inv: "bslot_inv P sc'" .
  have owner: "av_bslot avp = int s"
    if "sc_vaps sc' i = Some avp" "s < ATH_BCBUF P" "sc_bslot sc' ! s = i" for i avp s
  proof -
    note inv_any [OF inv that(1)]
    with inv_occupied [OF inv that(2)] that(3)
    obtain avp' where "sc_vaps sc' i = Some avp'" "av_bslot avp' = int s" by blast
    with that(1) show ?thesis by simp
  qed
  have a: "s = t"
    if "s < ATH_BCBUF P" "t < ATH_BCBUF P" "sc_bslot sc' ! s \<noteq> ATH_IF_ID_ANY P"
      "sc_bslot sc' ! s = sc_bslot sc' ! t" for s t
  proof -
    from inv_occupied [OF inv that(1,3)] obtain avp where
      v: "sc_vaps sc' (sc_bslot sc' ! s) = Some avp" by blast
    from owner [OF v that(1) refl] owner [OF v that(2) that(4) [symmetric]]
    show ?thesis by simp
  qed
  have a2: "av_bslot avp \<noteq> av_bslot avp'"
    if "slot_managed sc'" "i \<noteq> j" "sc_vaps sc' i = Some avp" "sc_vaps sc' j = Some avp'"
      "av_bcbuf avp \<noteq> None" "av_bcbuf avp' \<noteq> None" for i j avp avp'
    using inv_managed [OF inv that(1,3,5)] inv_managed [OF inv that(1,4,6)] that(2) by auto
  have b: "\<exists>!s. s < ATH_BCBUF P \<and> sc_bslot sc' ! s = i"
    if "slot_managed sc'" "sc_vaps sc' i = Some avp" "av_bcbuf avp \<noteq> None" for i avp
  proof (rule ex1I [of _ "nat (av_bslot avp)"])
    show "nat (av_bslot avp) < ATH_BCBUF P \<and> sc_bslot sc' ! nat (av_bslot avp) = i"
      using inv_managed [OF inv that] by simp
  next
    fix s assume "s < ATH_BCBUF P \<and> sc_bslot sc' ! s = i"
    with owner [OF that(2)] show "s = nat (av_bslot avp)" by auto
  qed
  have c: "\<exists>sc''. ath_beacon_return P sc' i = Inr sc'' \<and>
           sc_bslot sc'' = (sc_bslot sc')[nat (av_bslot avp) := ATH_IF_ID_ANY P] \<and>
           sc_bslot sc'' ! nat (av_bslot avp) = ATH_IF_ID_ANY P \<and>
           sc_nbcnvaps sc'' = sc_nbcnvaps sc' - 1 \<and> bslot_inv P sc''"
    if "slot_managed sc'" "sc_vaps sc' i = Some avp" "av_bcbuf avp = Some b" for i avp b
  proof -
    from ath_beacon_return_slot [OF inv that] obtain sc'' where
      r: "ath_beacon_return P sc' i = Inr sc''"
      "sc_bslot sc'' = (sc_bslot sc')[nat (av_bslot avp) := ATH_IF_ID_ANY P]"
      "sc_nbcnvaps sc'' = sc_nbcnvaps sc' - 1" by blast
    from inv_managed [OF inv that(1,2)] that(3) inv_len [OF inv]
    have "nat (av_bslot avp) < length (sc_bslot sc')" by simp
    with r(2) have "sc_bslot sc'' ! nat (av_bslot avp) = ATH_IF_ID_ANY P" by simp
    with ath_beacon_return_inv [OF inv r(1)] r show ?thesis by blast
  qed
  from inv a a2 b c show ?thesis by blast
qed

lemma ex_ops_run:
  "case apply_ops ath9k_params ex_ops ex_sc of
     Inl e \<Rightarrow> False
   | Inr sc' \<Rightarrow> sc_bslot sc' = [255, 2, 255, 1] \<and> sc_bbuf sc' = [3, 0] \<and> sc_nbcnvaps sc' = 2"
  by (simp add: ex_ops_def ex_sc_def ex_vap_def ex_frame_def ex_buf_def ath9k_params_def
      ath_beacon_alloc_def alloc_bcbuf_def slot_managed_def assign_bslot_def bslot_scan.simps
      release_mpdu_def write_tsfadjust_def ath_beacon_return_def Let_def)

lemma ex_sc_inv: "bslot_inv ath9k_params ex_sc"
proof (rule bslot_invI)
  show "length (sc_bslot ex_sc) = ATH_BCBUF ath9k_params"
    by (simp add: ex_sc_def ath9k_params_def)
  show "sc_vaps ex_sc (ATH_IF_ID_ANY ath9k_params) = None"
    by (simp add: ex_sc_def ath9k_params_def)
  show "\<exists>avp. sc_vaps ex_sc (sc_bslot ex_sc ! s) = Some avp \<and> av_bcbuf avp \<noteq> None \<and>
          av_bslot avp = int s"
    if "s < ATH_BCBUF ath9k_params" "sc_bslot ex_sc ! s \<noteq> ATH_IF_ID_ANY ath9k_params" for s
  proof -
    from that(1) have "s = 0 \<or> s = 1 \<or> s = 2 \<or> s = 3"
      by (simp add: ath9k_params_def) arith
    then have "sc_bslot ex_sc ! s = 255" by (auto simp: ex_sc_def)
    with that(2) show ?thesis by (simp add: ath9k_params_def)
  qed
  show "0 \<le> av_bslot avp \<and> nat (av_bslot avp) < ATH_BCBUF ath9k_params \<and>
        sc_bslot ex_sc ! nat (av_bslot avp) = i"
    if "sc_vaps ex_sc i = Some avp" "av_bcbuf avp \<noteq> None" for i avp
    using that by (auto simp: ex_sc_def ex_vap_def split: if_splits)
  show "av_bslot avp = - 1" if "\<not> slot_managed ex_sc" for avp
    using that by (simp add: slot_managed_def ex_sc_def)
qed

theorem slot_table_invariant_witness:
  "sc_bslot (projr (apply_ops ath9k_params ex_ops ex_sc)) = [255, 2, 255, 1] \<and>
   bslot_inv ath9k_params (projr (apply_ops ath9k_params ex_ops ex_sc))"
proof -
  from ex_ops_run obtain sc' where run: "apply_ops ath9k_params ex_ops ex_sc = Inr sc'"
    and tab: "sc_bslot sc' = [255, 2, 255, 1]"
    by (cases "apply_ops ath9k_params ex_ops ex_sc") simp_all
  from slot_table_invariant [OF ex_sc_inv run] have "bslot_inv ath9k_params sc'" by blast
  with run tab show ?thesis by simp
qed

subsection \<open>C9: the timestamp adjustment of staggered beacons\<close>

lemma le_bytes64_inverse8:
  "le_bytes64 (of_le_bytes64 [b0, b1, b2, b3, b4, b5, b6, b7]) = [b0, b1, b2, b3, b4, b5, b6, b7]"
  unfolding le_bytes64_def of_le_bytes64_def
  apply (simp add: upt_rec)
  apply (intro conjI; rule bit_word_eqI)
         apply (auto simp: bit_simps dest: bit_imp_le_length)
  done

lemma le_bytes64_list:
  "\<exists>b0 b1 b2 b3 b4 b5 b6 b7. le_bytes64 w = [b0, b1, b2, b3, b4, b5, b6, b7]"
  by (simp add: le_bytes64_def upt_rec)

lemma object_bytes64_cpu_to_le64: "object_bytes64 P (cpu_to_le64 P w) = le_bytes64 w"
proof (cases "host_big_endian P")
  case False
  then show ?thesis by (simp add: object_bytes64_def cpu_to_le64_def)
next
  case True
  obtain b0 b1 b2 b3 b4 b5 b6 b7 where b: "le_bytes64 w = [b0, b1, b2, b3, b4, b5, b6, b7]"
    using le_bytes64_list by blast
  have "rev (le_bytes64 (of_le_bytes64 (rev (le_bytes64 w)))) = le_bytes64 w"
    unfolding b by (simp add: le_bytes64_inverse8)
  with True show ?thesis by (simp add: object_bytes64_def cpu_to_le64_def)
qed

lemma length_le_bytes64 [simp]: "length (le_bytes64 w) = 8"
  by (simp add: le_bytes64_def)

lemma c_div_nonneg: "0 \<le> a \<Longrightarrow> 0 < b \<Longrightarrow> c_div a b = a div b"
  by (simp add: c_div_def)

lemma alloc_bcbuf_result:
  "alloc_bcbuf P sc i avp0 = Inr (sc1, avp, b) \<Longrightarrow>
   av_bcbuf avp = Some b \<and> sc_stagbeacons sc1 = sc_stagbeacons sc"
  by (cases "av_bcbuf avp0"; cases "sc_bbuf sc"; cases "slot_managed sc")
     (auto simp: alloc_bcbuf_def Let_def split: if_splits)

lemma ath_beacon_alloc_Some:
  assumes "ath_beacon_alloc P sc i (Some skb) = Inr (sc', r)"
  obtains avp b skb1 where
    "sc_vaps sc' i = Some avp" "av_bcbuf avp = Some b" "r = 0"
    "(if sc_stagbeacons sc \<and> 0 < av_bslot avp
      then write_tsfadjust P (av_bslot avp) skb else Inr skb) = Inr skb1"
    "bf_mpdu (sc_bufs sc' b) = Some skb1"
proof -
  from assms obtain avp0 where v: "sc_vaps sc i = Some avp0"
    by (cases "sc_vaps sc i") (simp_all add: ath_beacon_alloc_def)
  from assms v obtain sc1 avp b where ab: "alloc_bcbuf P sc i avp0 = Inr (sc1, avp, b)"
    by (cases "alloc_bcbuf P sc i avp0") (auto simp: ath_beacon_alloc_def)
  note res = alloc_bcbuf_result [OF ab]
  define sc2 where "sc2 = release_mpdu (sc1\<lparr>sc_vaps := (sc_vaps sc1)(i := Some avp)\<rparr>) b"
  have st2: "sc_stagbeacons sc2 = sc_stagbeacons sc" and v2: "sc_vaps sc2 i = Some avp"
    using res by (simp_all add: sc2_def)
  define w where "w = (if sc_stagbeacons sc \<and> 0 < av_bslot avp
      then write_tsfadjust P (av_bslot avp) skb else Inr skb)"
  have eq: "ath_beacon_alloc P sc i (Some skb) =
     (case w of Inl e \<Rightarrow> Inl e
      | Inr skb1 \<Rightarrow> Inr (sc2\<lparr>sc_bufs := (sc_bufs sc2)(b := (sc_bufs sc2 b)\<lparr>bf_mpdu := Some skb1\<rparr>)\<rparr>, 0))"
    unfolding sc2_def w_def using v ab res by (simp add: ath_beacon_alloc_def Let_def)
  from assms [unfolded eq] obtain skb1 where w1: "w = Inr skb1"
    by (cases w) simp_all
  with assms [unfolded eq]
  have sc': "sc' = sc2\<lparr>sc_bufs := (sc_bufs sc2)(b := (sc_bufs sc2 b)\<lparr>bf_mpdu := Some skb1\<rparr>)\<rparr>"
    and r: "r = 0" by simp_all
  have "sc_vaps sc' i = Some avp" using sc' v2 by simp
  moreover have "bf_mpdu (sc_bufs sc' b) = Some skb1" using sc' by simp
  ultimately show ?thesis using that res r w1 unfolding w_def by blast
qed

lemma write_tsfadjust_Inr:
  assumes "write_tsfadjust P bslot skb = Inr skb1"
  shows "ieee80211_hdr_size P + 8 \<le> length (skb_data skb) \<and>
         skb1 = skb\<lparr>skb_data := take (ieee80211_hdr_size P) (skb_data skb) @
            le_bytes64 (push_bit 10 (word_of_int (tsfadjust_tu P bslot))) @
            drop (ieee80211_hdr_size P + 8) (skb_data skb)\<rparr>"
proof (cases "length (skb_data skb) < ieee80211_hdr_size P + 8")
  case True
  with assms show ?thesis by (simp add: write_tsfadjust_def Let_def)
next
  case False
  with assms show ?thesis
    by (simp add: write_tsfadjust_def Let_def tsfadjust_def object_bytes64_cpu_to_le64)
qed

lemma tsfadjust_tu_slot:
  assumes "0 < bslot" and "bslot < int (ATH_BCBUF P)"
  shows "tsfadjust_tu P bslot =
           int ((ATH_DEFAULT_BINTVAL P * (ATH_BCBUF P - nat bslot)) div ATH_BCBUF P)"
proof -
  from assms have "int (ATH_BCBUF P) - bslot = int (ATH_BCBUF P - nat bslot)" by simp
  then have "int (ATH_DEFAULT_BINTVAL P) * (int (ATH_BCBUF P) - bslot) =
             int (ATH_DEFAULT_BINTVAL P * (ATH_BCBUF P - nat bslot))"
    by (simp only: of_nat_mult)
  then have "tsfadjust_tu P bslot =
      c_div (int (ATH_DEFAULT_BINTVAL P * (ATH_BCBUF P - nat bslot))) (int (ATH_BCBUF P))"
    by (simp only: tsfadjust_tu_def)
  also have "\<dots> = int (ATH_DEFAULT_BINTVAL P * (ATH_BCBUF P - nat bslot)) div int (ATH_BCBUF P)"
    using assms by (intro c_div_nonneg) simp_all
  also have "\<dots> = int ((ATH_DEFAULT_BINTVAL P * (ATH_BCBUF P - nat bslot)) div ATH_BCBUF P)"
    by (simp only: zdiv_int)
  finally show ?thesis .
qed

text \<open>
  Claim C9.  Let \<open>ath_beacon_alloc\<close> succeed with the frame \<open>skb\<close>, and let \<open>s\<close> be the
  slot of the interface afterwards.  With staggered beacons and \<open>0 < s < ATH_BCBUF\<close> the
  frame attached to the beacon buffer is \<open>skb\<close> with the eight bytes that follow the
  first \<^verbatim>\<open>sizeof(struct ieee80211_hdr)\<close> bytes replaced by the little-endian bytes of
  \<open>((ATH_DEFAULT_BINTVAL * (ATH_BCBUF - s)) div ATH_BCBUF) << 10\<close>, on a host of either
  byte order.  Without staggered beacons, or with \<open>s \<le> 0\<close>, the frame is attached as it
  is.  The product is assumed to fit the C \<^verbatim>\<open>int\<close> it is computed in.
\<close>

theorem tsfadjust_written:
  assumes "ath_beacon_alloc P sc if_id (Some skb) = Inr (sc', r)"
    and "ATH_DEFAULT_BINTVAL P * ATH_BCBUF P < 2 ^ 31"
  shows "\<exists>avp b. sc_vaps sc' if_id = Some avp \<and> av_bcbuf avp = Some b \<and> r = 0 \<and>
           (sc_stagbeacons sc \<and> 0 < av_bslot avp \<and> av_bslot avp < int (ATH_BCBUF P) \<longrightarrow>
              bf_mpdu (sc_bufs sc' b) =
                Some (skb\<lparr>skb_data :=
                   take (ieee80211_hdr_size P) (skb_data skb) @
                   le_bytes64 (push_bit 10 (word_of_nat
                     ((ATH_DEFAULT_BINTVAL P * (ATH_BCBUF P - nat (av_bslot avp))) div ATH_BCBUF P))) @
                   drop (ieee80211_hdr_size P + 8) (skb_data skb)\<rparr>) \<and>
              ieee80211_hdr_size P + 8 \<le> length (skb_data skb)) \<and>
           (\<not> sc_stagbeacons sc \<or> av_bslot avp \<le> 0 \<longrightarrow> bf_mpdu (sc_bufs sc' b) = Some skb)"
proof -
  from ath_beacon_alloc_Some [OF assms(1)] obtain avp b skb1 where
    v: "sc_vaps sc' if_id = Some avp" and bc: "av_bcbuf avp = Some b" and r: "r = 0"
    and w: "(if sc_stagbeacons sc \<and> 0 < av_bslot avp
             then write_tsfadjust P (av_bslot avp) skb else Inr skb) = Inr skb1"
    and m: "bf_mpdu (sc_bufs sc' b) = Some skb1" by blast
  have a: "bf_mpdu (sc_bufs sc' b) =
             Some (skb\<lparr>skb_data :=
                take (ieee80211_hdr_size P) (skb_data skb) @
                le_bytes64 (push_bit 10 (word_of_nat
                  ((ATH_DEFAULT_BINTVAL P * (ATH_BCBUF P - nat (av_bslot avp))) div ATH_BCBUF P))) @
                drop (ieee80211_hdr_size P + 8) (skb_data skb)\<rparr>) \<and>
           ieee80211_hdr_size P + 8 \<le> length (skb_data skb)"
    if "sc_stagbeacons sc" "0 < av_bslot avp" "av_bslot avp < int (ATH_BCBUF P)"
  proof -
    from w that have "write_tsfadjust P (av_bslot avp) skb = Inr skb1" by simp
    from write_tsfadjust_Inr [OF this] m tsfadjust_tu_slot [OF that(2,3)]
    show ?thesis by simp
  qed
  have b: "bf_mpdu (sc_bufs sc' b) = Some skb" if "\<not> sc_stagbeacons sc \<or> av_bslot avp \<le> 0"
    using w m that by auto
  from v bc r a b show ?thesis by blast
qed


lemma ex_alloc_slot1:
  "case ath_beacon_alloc ath9k_params ex_sc 0 (Some ex_frame) of
     Inl e \<Rightarrow> False
   | Inr (sc', r) \<Rightarrow> sc_vaps sc' 0 = Some (ex_vap\<lparr>av_bcbuf := Some 0, av_bslot := 1\<rparr>)"
  by (simp add: ex_sc_def ex_vap_def ex_frame_def ex_buf_def ath9k_params_def
      ath_beacon_alloc_def alloc_bcbuf_def slot_managed_def assign_bslot_def bslot_scan.simps
      release_mpdu_def write_tsfadjust_def Let_def)

lemma ex_alloc_slot0:
  "case ath_beacon_alloc ath9k_params (ex_sc\<lparr>sc_bslot := [255, 1, 2, 3]\<rparr>) 0 (Some ex_frame) of
     Inl e \<Rightarrow> False
   | Inr (sc', r) \<Rightarrow> sc_vaps sc' 0 = Some (ex_vap\<lparr>av_bcbuf := Some 0, av_bslot := 0\<rparr>)"
  by (simp add: ex_sc_def ex_vap_def ex_frame_def ex_buf_def ath9k_params_def
      ath_beacon_alloc_def alloc_bcbuf_def slot_managed_def assign_bslot_def bslot_scan.simps
      release_mpdu_def write_tsfadjust_def Let_def)

theorem tsfadjust_written_witness:
  "bf_mpdu (sc_bufs (fst (projr (ath_beacon_alloc ath9k_params ex_sc 0 (Some ex_frame)))) 0) =
     Some \<lparr>skb_data = replicate 24 0 @ [0, 44, 1, 0, 0, 0, 0, 0] @ replicate 8 0\<rparr> \<and>
   bf_mpdu (sc_bufs (fst (projr (ath_beacon_alloc ath9k_params
       (ex_sc\<lparr>sc_bslot := [255, 1, 2, 3]\<rparr>) 0 (Some ex_frame)))) 0) = Some ex_frame"
proof -
  from ex_alloc_slot1 obtain sc1 r1 where
    run1: "ath_beacon_alloc ath9k_params ex_sc 0 (Some ex_frame) = Inr (sc1, r1)"
    and v1: "sc_vaps sc1 0 = Some (ex_vap\<lparr>av_bcbuf := Some 0, av_bslot := 1\<rparr>)"
    by (cases "ath_beacon_alloc ath9k_params ex_sc 0 (Some ex_frame)") auto
  from ex_alloc_slot0 obtain sc0 r0 where
    run0: "ath_beacon_alloc ath9k_params (ex_sc\<lparr>sc_bslot := [255, 1, 2, 3]\<rparr>) 0 (Some ex_frame)
             = Inr (sc0, r0)"
    and v0: "sc_vaps sc0 0 = Some (ex_vap\<lparr>av_bcbuf := Some 0, av_bslot := 0\<rparr>)"
    by (cases "ath_beacon_alloc ath9k_params (ex_sc\<lparr>sc_bslot := [255, 1, 2, 3]\<rparr>) 0 (Some ex_frame)")
       auto
  have st: "sc_stagbeacons ex_sc" by (simp add: ex_sc_def)
  have fit: "ATH_DEFAULT_BINTVAL ath9k_params * ATH_BCBUF ath9k_params < 2 ^ 31"
    by (simp add: ath9k_params_def)
  from tsfadjust_written [OF run1 fit] v1 st
  have "bf_mpdu (sc_bufs sc1 0) =
          Some (ex_frame\<lparr>skb_data :=
             take (ieee80211_hdr_size ath9k_params) (skb_data ex_frame) @
             le_bytes64 (push_bit 10 (word_of_nat
               ((ATH_DEFAULT_BINTVAL ath9k_params * (ATH_BCBUF ath9k_params - nat 1))
                  div ATH_BCBUF ath9k_params))) @
             drop (ieee80211_hdr_size ath9k_params + 8) (skb_data ex_frame)\<rparr>)"
    by (auto simp: ath9k_params_def)
  then have a: "bf_mpdu (sc_bufs sc1 0) =
     Some \<lparr>skb_data = replicate 24 0 @ [0, 44, 1, 0, 0, 0, 0, 0] @ replicate 8 0\<rparr>"
    by (simp add: ath9k_params_def ex_frame_def le_bytes64_def upt_rec)
  from tsfadjust_written [OF run0 fit] v0
  have b: "bf_mpdu (sc_bufs sc0 0) = Some ex_frame" by auto
  from a b run1 run0 show ?thesis by simp
qed

subsection \<open>C3: merging the multicast queue into the CAB queue\<close>

text \<open>
  Claim C3.  A merge with a non-empty multicast list succeeds, in
  \<open>empty_mcastq_into_cabq\<close> and in \<open>trigger_mcastq\<close> (which then starts the CAB queue).
  The depth of the CAB queue grows by the depth of the multicast queue, its list by the
  multicast list; the multicast queue is left with depth 0, no frames and no link.  The
  code decides by the link pointer of the CAB queue: when it is \<^verbatim>\<open>NULL\<close> the address
  of the first multicast frame is loaded as the head of the hardware queue, otherwise
  it is written (as a little-endian value) to the link field the pointer names.  For a
  CAB queue with consistent bookkeeping this is the distinction of the claim: an empty
  queue gets the head, a non-empty one the link field of its last buffer rewritten; and
  consistency is kept.
\<close>

theorem cab_merge:
  assumes "axq_q mcastq \<noteq> []"
  shows "\<exists>ah' bufs' mcastq' cabq'.
     empty_mcastq_into_cabq P ah bufs mcastq cabq = Inr (ah', bufs', mcastq', cabq') \<and>
     trigger_mcastq P ah bufs mcastq cabq =
       Inr (ah'\<lparr>hal_calls := hal_calls ah' @ [TxStart (axq_qnum cabq)]\<rparr>, bufs', mcastq', cabq') \<and>
     axq_depth cabq' = axq_depth cabq + axq_depth mcastq \<and>
     axq_q cabq' = axq_q cabq @ axq_q mcastq \<and>
     axq_link cabq' = axq_link mcastq \<and>
     axq_depth mcastq' = 0 \<and> axq_q mcastq' = [] \<and> axq_link mcastq' = None \<and>
     (axq_link cabq = None \<longrightarrow>
        hal_calls ah' = hal_calls ah @ [PutTxBuf (axq_qnum cabq) (bf_daddr (bufs (hd (axq_q mcastq))))] \<and>
        bufs' = bufs) \<and>
     (\<forall>l. axq_link cabq = Some l \<longrightarrow>
        bufs' = bufs(l := (bufs l)\<lparr>ds_link := cpu_to_le32 P (bf_daddr (bufs (hd (axq_q mcastq))))\<rparr>) \<and>
        ah' = ah) \<and>
     (txq_consistent cabq \<longrightarrow>
        (axq_q cabq = [] \<longrightarrow>
           hal_calls ah' =
             hal_calls ah @ [PutTxBuf (axq_qnum cabq) (bf_daddr (bufs (hd (axq_q mcastq))))]) \<and>
        (axq_q cabq \<noteq> [] \<longrightarrow>
           ds_link (bufs' (last (axq_q cabq))) = cpu_to_le32 P (bf_daddr (bufs (hd (axq_q mcastq)))) \<and>
           hal_calls ah' = hal_calls ah) \<and>
        (txq_consistent mcastq \<longrightarrow> txq_consistent cabq' \<and> txq_consistent mcastq'))"
proof -
  from assms obtain bfmcast rest where q: "axq_q mcastq = bfmcast # rest"
    by (cases "axq_q mcastq") auto
  show ?thesis
  proof (cases "axq_link cabq")
    case None
    with q show ?thesis
      by (simp add: empty_mcastq_into_cabq_def trigger_mcastq_def Let_def txq_consistent_def)
  next
    case (Some l)
    with q show ?thesis
      by (simp add: empty_mcastq_into_cabq_def trigger_mcastq_def Let_def txq_consistent_def)
  qed
qed

theorem cab_merge_witness:
  "axq_depth (snd (snd (snd (projr (empty_mcastq_into_cabq ath9k_params \<lparr>hal_calls = []\<rparr> ex_buf
      ex_mcastq ex_cabq))))) = 3 \<and>
   ds_link (fst (snd (projr (empty_mcastq_into_cabq ath9k_params \<lparr>hal_calls = []\<rparr> ex_buf
      ex_mcastq ex_cabq))) 3) = 5376 \<and>
   hal_calls (fst (projr (empty_mcastq_into_cabq ath9k_params \<lparr>hal_calls = []\<rparr> ex_buf
      ex_mcastq (ex_txq 8)))) = [PutTxBuf 8 5376]"
proof -
  have ne: "axq_q ex_mcastq \<noteq> []" by (simp add: ex_mcastq_def)
  have c1: "txq_consistent ex_cabq" and c2: "txq_consistent (ex_txq 8)"
    by (simp_all add: txq_consistent_def ex_cabq_def ex_txq_def)
  have le: "cpu_to_le32 ath9k_params w = w" for w
    by (simp add: cpu_to_le32_def ath9k_params_def)
  from cab_merge [OF ne, of ath9k_params "\<lparr>hal_calls = []\<rparr>" ex_buf ex_cabq] c1
  obtain ah1 bufs1 m1 q1 where
    r1: "empty_mcastq_into_cabq ath9k_params \<lparr>hal_calls = []\<rparr> ex_buf ex_mcastq ex_cabq =
           Inr (ah1, bufs1, m1, q1)"
    and d1: "axq_depth q1 = axq_depth ex_cabq + axq_depth ex_mcastq"
    and l1: "axq_q ex_cabq \<noteq> [] \<longrightarrow>
             ds_link (bufs1 (last (axq_q ex_cabq))) =
               cpu_to_le32 ath9k_params (bf_daddr (ex_buf (hd (axq_q ex_mcastq))))"
    by blast
  from cab_merge [OF ne, of ath9k_params "\<lparr>hal_calls = []\<rparr>" ex_buf "ex_txq 8"] c2
  obtain ah2 bufs2 m2 q2 where
    r2: "empty_mcastq_into_cabq ath9k_params \<lparr>hal_calls = []\<rparr> ex_buf ex_mcastq (ex_txq 8) =
           Inr (ah2, bufs2, m2, q2)"
    and h2: "axq_q (ex_txq 8) = [] \<longrightarrow>
             hal_calls ah2 = hal_calls \<lparr>hal_calls = []\<rparr> @
               [PutTxBuf (axq_qnum (ex_txq 8)) (bf_daddr (ex_buf (hd (axq_q ex_mcastq))))]"
    by blast
  from r1 d1 l1 r2 h2 show ?thesis
    by (simp add: le ex_cabq_def ex_mcastq_def ex_txq_def ex_buf_def)
qed

subsection \<open>C4: stale CAB traffic at a DTIM beacon\<close>

lemma trigger_mcastq_merge:
  assumes "axq_q mcastq \<noteq> []"
  shows "\<exists>ah' bufs' mcastq'.
     trigger_mcastq P ah bufs mcastq cabq =
       Inr (ah', bufs', mcastq',
            cabq\<lparr>axq_depth := axq_depth cabq + axq_depth mcastq,
                 axq_totalqueued := axq_totalqueued cabq + axq_totalqueued mcastq,
                 axq_linkbuf := axq_linkbuf mcastq, axq_link := axq_link mcastq,
                 axq_q := axq_q cabq @ axq_q mcastq\<rparr>)"
proof -
  from assms obtain bfmcast rest where q: "axq_q mcastq = bfmcast # rest"
    by (cases "axq_q mcastq") auto
  then show ?thesis
    by (simp add: empty_mcastq_into_cabq_def trigger_mcastq_def Let_def)
qed

lemma ath_beacon_setup_ok:
  assumes "bf_mpdu (sc_bufs sc b) = Some skb" and "sc_nbcnvaps sc \<noteq> 0"
  shows "\<exists>sc'. ath_beacon_setup P sc b = Inr sc' \<and> sc_cabq sc' = sc_cabq sc \<and>
           sc_calls sc' = sc_calls sc \<and> sc_vaps sc' = sc_vaps sc"
  using assms by (simp add: ath_beacon_setup_def Let_def)

lemma draintxq_fields [simp]:
  "sc_bufs (ath_tx_draintxq sc) = sc_bufs sc"
  "sc_nbcnvaps (ath_tx_draintxq sc) = sc_nbcnvaps sc"
  "sc_vaps (ath_tx_draintxq sc) = sc_vaps sc"
  "axq_depth (sc_cabq (ath_tx_draintxq sc)) = 0"
  "axq_q (sc_cabq (ath_tx_draintxq sc)) = []"
  "sc_calls (ath_tx_draintxq sc) = sc_calls sc @ [DrainTxq (axq_qnum (sc_cabq sc))]"
  by (simp_all add: ath_tx_draintxq_def)

lemma ath_beacon_generate_dtim:
  assumes v: "sc_vaps sc if_id = Some avp" and bc: "av_bcbuf avp = Some b"
    and fr: "bf_mpdu (sc_bufs sc b) = Some skb"
    and dtim: "snd (ath_update_beacon env if_id (axq_depth (av_mcastq avp))) AND 1 \<noteq> 0"
    and ne: "axq_q (av_mcastq avp) \<noteq> []"
    and nb: "sc_nbcnvaps sc \<noteq> 0"
    and sc1: "sc1 = (if axq_depth (av_mcastq avp) \<noteq> 0 \<and> axq_depth (sc_cabq sc) \<noteq> 0 \<and>
                       1 < sc_nvaps sc \<and> sc_stagbeacons sc then ath_tx_draintxq sc else sc)"
  shows "\<exists>sc'. ath_beacon_generate P env sc if_id = Inr (sc', Some b) \<and>
           axq_depth (sc_cabq sc') = axq_depth (sc_cabq sc1) + axq_depth (av_mcastq avp) \<and>
           axq_q (sc_cabq sc') = axq_q (sc_cabq sc1) @ axq_q (av_mcastq avp) \<and>
           sc_calls sc' = sc_calls sc1"
proof -
  have fr1: "bf_mpdu (sc_bufs sc1 b) = Some skb" and nb1: "sc_nbcnvaps sc1 \<noteq> 0"
    using fr nb sc1 by simp_all
  from ath_beacon_setup_ok [OF fr1 nb1, of P] obtain sc2 where
    s2: "ath_beacon_setup P sc1 b = Inr sc2" and c2: "sc_cabq sc2 = sc_cabq sc1"
    and k2: "sc_calls sc2 = sc_calls sc1" by blast
  from trigger_mcastq_merge [OF ne, of P "sc_ah sc2" "sc_bufs sc2" "sc_cabq sc2"]
  obtain ah' bufs' mcastq' where
    t: "trigger_mcastq P (sc_ah sc2) (sc_bufs sc2) (av_mcastq avp) (sc_cabq sc2) =
          Inr (ah', bufs', mcastq',
               (sc_cabq sc2)\<lparr>axq_depth := axq_depth (sc_cabq sc2) + axq_depth (av_mcastq avp),
                 axq_totalqueued := axq_totalqueued (sc_cabq sc2) + axq_totalqueued (av_mcastq avp),
                 axq_linkbuf := axq_linkbuf (av_mcastq avp), axq_link := axq_link (av_mcastq avp),
                 axq_q := axq_q (sc_cabq sc2) @ axq_q (av_mcastq avp)\<rparr>)"
    by blast
  have "ath_beacon_generate P env sc if_id =
      (case trigger_mcastq P (sc_ah sc2) (sc_bufs sc2) (av_mcastq avp) (sc_cabq sc2) of
         Inl e \<Rightarrow> Inl e
       | Inr (ah, bufs, mcastq, cabq) \<Rightarrow>
           Inr (sc2\<lparr>sc_ah := ah, sc_bufs := bufs, sc_cabq := cabq,
                    sc_vaps := (sc_vaps sc2)(if_id := Some (avp\<lparr>av_mcastq := mcastq\<rparr>))\<rparr>,
                Some b))"
    using v bc fr dtim s2 unfolding sc1
    by (simp add: ath_beacon_generate_def Let_def)
  with t c2 k2 show ?thesis by simp
qed

text \<open>
  Claim C4.  \<open>ath_beacon_generate\<close> runs for an interface with a beacon buffer and a
  frame; the refreshed beacon is a DTIM beacon (bit 0 of \<^verbatim>\<open>bo_tim[4]\<close>), the multicast
  queue of the interface is not empty (its depth and its list), and the CAB queue has
  depth other than 0.  With more than one interface (\<^verbatim>\<open>sc_nvaps > 1\<close>) and staggered
  beacons \<^verbatim>\<open>ath_tx_draintxq\<close> is called on the CAB queue before the merge, and
  afterwards the CAB queue holds the multicast frames only, with their depth.  Otherwise
  (a single interface, or beacons in a burst) there is no such call, and the multicast
  frames are appended to what the CAB queue held.
\<close>

theorem stale_cab_drained:
  assumes "sc_vaps sc if_id = Some avp" and "av_bcbuf avp = Some b"
    and "bf_mpdu (sc_bufs sc b) = Some skb"
    and "snd (ath_update_beacon env if_id (axq_depth (av_mcastq avp))) AND 1 \<noteq> 0"
    and "axq_q (av_mcastq avp) \<noteq> []" and "axq_depth (av_mcastq avp) \<noteq> 0"
    and "axq_depth (sc_cabq sc) \<noteq> 0"
    and "sc_nbcnvaps sc \<noteq> 0"
  shows "(1 < sc_nvaps sc \<and> sc_stagbeacons sc \<longrightarrow>
           (\<exists>sc'. ath_beacon_generate P env sc if_id = Inr (sc', Some b) \<and>
              axq_depth (sc_cabq sc') = axq_depth (av_mcastq avp) \<and>
              axq_q (sc_cabq sc') = axq_q (av_mcastq avp) \<and>
              sc_calls sc' = sc_calls sc @ [DrainTxq (axq_qnum (sc_cabq sc))])) \<and>
         (\<not> (1 < sc_nvaps sc \<and> sc_stagbeacons sc) \<longrightarrow>
           (\<exists>sc'. ath_beacon_generate P env sc if_id = Inr (sc', Some b) \<and>
              axq_depth (sc_cabq sc') = axq_depth (sc_cabq sc) + axq_depth (av_mcastq avp) \<and>
              axq_q (sc_cabq sc') = axq_q (sc_cabq sc) @ axq_q (av_mcastq avp) \<and>
              sc_calls sc' = sc_calls sc))"
proof (cases "1 < sc_nvaps sc \<and> sc_stagbeacons sc")
  case True
  from ath_beacon_generate_dtim [OF assms(1-5,8) refl, of P] True assms(6,7)
  show ?thesis by simp
next
  case False
  from ath_beacon_generate_dtim [OF assms(1-5,8) refl, of P] False
  show ?thesis by auto
qed

theorem stale_cab_drained_witness:
  "axq_depth (sc_cabq (fst (projr (ath_beacon_generate ath9k_params ex_env ex_sc_dtim 0)))) = 2 \<and>
   axq_depth (sc_cabq (fst (projr (ath_beacon_generate ath9k_params ex_env
      (ex_sc_dtim\<lparr>sc_nvaps := 1\<rparr>) 0)))) = 3"
proof -
  let ?avp = "ex_vap\<lparr>av_bcbuf := Some 0, av_bslot := 1, av_mcastq := ex_mcastq\<rparr>"
  have h: "sc_vaps (ex_sc_dtim\<lparr>sc_nvaps := n\<rparr>) 0 = Some ?avp" "av_bcbuf ?avp = Some 0"
    "bf_mpdu (sc_bufs (ex_sc_dtim\<lparr>sc_nvaps := n\<rparr>) 0) = Some ex_frame"
    "snd (ath_update_beacon ex_env 0 (axq_depth (av_mcastq ?avp))) AND 1 \<noteq> 0"
    "axq_q (av_mcastq ?avp) \<noteq> []" "axq_depth (av_mcastq ?avp) \<noteq> 0"
    "axq_depth (sc_cabq (ex_sc_dtim\<lparr>sc_nvaps := n\<rparr>)) \<noteq> 0"
    "sc_nbcnvaps (ex_sc_dtim\<lparr>sc_nvaps := n\<rparr>) \<noteq> 0" for n
    by (simp_all add: ex_sc_dtim_def ex_env_def ex_mcastq_def ex_cabq_def)
  have two: "1 < sc_nvaps (ex_sc_dtim\<lparr>sc_nvaps := 2\<rparr>) \<and> sc_stagbeacons (ex_sc_dtim\<lparr>sc_nvaps := 2\<rparr>)"
    by (simp add: ex_sc_dtim_def ex_sc_def)
  have one: "\<not> (1 < sc_nvaps (ex_sc_dtim\<lparr>sc_nvaps := 1\<rparr>) \<and>
                 sc_stagbeacons (ex_sc_dtim\<lparr>sc_nvaps := 1\<rparr>))"
    by simp
  have same: "ex_sc_dtim\<lparr>sc_nvaps := 2\<rparr> = ex_sc_dtim" by (simp add: ex_sc_dtim_def ex_sc_def)
  from stale_cab_drained [OF h, of 2 ath9k_params] two
  obtain sc2 where "ath_beacon_generate ath9k_params ex_env (ex_sc_dtim\<lparr>sc_nvaps := 2\<rparr>) 0
      = Inr (sc2, Some 0)" "axq_depth (sc_cabq sc2) = axq_depth (av_mcastq ?avp)" by blast
  then have a: "axq_depth (sc_cabq (fst (projr (ath_beacon_generate ath9k_params ex_env ex_sc_dtim 0)))) = 2"
    by (simp add: same ex_mcastq_def)
  from stale_cab_drained [OF h, of 1 ath9k_params] one
  obtain sc1 where "ath_beacon_generate ath9k_params ex_env (ex_sc_dtim\<lparr>sc_nvaps := 1\<rparr>) 0
      = Inr (sc1, Some 0)"
    "axq_depth (sc_cabq sc1) = axq_depth (sc_cabq (ex_sc_dtim\<lparr>sc_nvaps := 1\<rparr>)) +
       axq_depth (av_mcastq ?avp)" by blast
  then have b: "axq_depth (sc_cabq (fst (projr (ath_beacon_generate ath9k_params ex_env
      (ex_sc_dtim\<lparr>sc_nvaps := 1\<rparr>) 0)))) = 3"
    by (simp add: ex_sc_dtim_def ex_mcastq_def ex_cabq_def)
  from a b show ?thesis by simp
qed

subsection \<open>C2: the counter of missed beacons\<close>

lemma tasklet_runs_append:
  "tasklet_runs P (xs @ ys) sc =
     (case tasklet_runs P xs sc of
        Inl e \<Rightarrow> Inl e
      | Inr (sc1, g1) \<Rightarrow>
          (case tasklet_runs P ys sc1 of
             Inl e \<Rightarrow> Inl e
           | Inr (sc2, g2) \<Rightarrow> Inr (sc2, g1 @ g2)))"
  by (induction xs arbitrary: sc) (auto split: sum.splits)

lemma beacon_missed_fields [simp]:
  "sc_bmisscount (beacon_missed P sc) = sc_bmisscount sc + 1"
  "sc_noreset (beacon_missed P sc) = sc_noreset sc"
  "ast_be_xmit (beacon_missed P sc) = ast_be_xmit sc"
  "sc_bufs (beacon_missed P sc) = sc_bufs sc"
  "sc_cabq (beacon_missed P sc) = sc_cabq sc"
  "sc_vaps (beacon_missed P sc) = sc_vaps sc"
  "sc_bslot (beacon_missed P sc) = sc_bslot sc"
  by (simp_all add: beacon_missed_def ath_bstuck_process_def Let_def)

lemma beacon_missed_resets:
  "resets (beacon_missed P sc) =
     (if BSTUCK_THRESH P \<le> unat (sc_bmisscount sc + 1) \<and> \<not> sc_noreset sc
      then resets sc + 1 else resets sc)"
  by (simp add: beacon_missed_def ath_bstuck_process_def Let_def resets_def)

lemma beacon_missed_hal:
  "hal_calls (sc_ah (beacon_missed P sc)) = hal_calls (sc_ah sc) \<or>
   hal_calls (sc_ah (beacon_missed P sc)) = hal_calls (sc_ah sc) @ [DmaRegDump]"
  by (simp add: beacon_missed_def ath_bstuck_process_def Let_def)

lemma pending_runs:
  "\<forall>env\<in>set envs. numtxpending env \<noteq> 0 \<Longrightarrow>
   tasklet_runs P envs sc = Inr ((beacon_missed P ^^ length envs) sc, [])"
proof (induction envs arbitrary: sc)
  case Nil
  then show ?case by simp
next
  case (Cons env envs)
  then have "tasklet_runs P envs (beacon_missed P sc) =
      Inr ((beacon_missed P ^^ length envs) (beacon_missed P sc), [])" by simp
  with Cons.prems show ?case
    by (simp add: ath9k_beacon_tasklet_def funpow_swap1)
qed

lemma missed_count:
  "sc_bmisscount ((beacon_missed P ^^ n) sc) = sc_bmisscount sc + word_of_nat n \<and>
   sc_noreset ((beacon_missed P ^^ n) sc) = sc_noreset sc"
  by (induction n) simp_all

lemma unat_of_nat32: "n < 2 ^ 32 \<Longrightarrow> unat (word_of_nat n :: 32 word) = n"
  by (simp add: unat_of_nat take_bit_nat_eq_self)

lemma missed_below_thresh:
  assumes "sc_bmisscount sc = 0" and "n < BSTUCK_THRESH P" and "BSTUCK_THRESH P < 2 ^ 32"
  shows "resets ((beacon_missed P ^^ n) sc) = resets sc"
  using assms(2)
proof (induction n)
  case 0
  then show ?case by simp
next
  case (Suc n)
  have "sc_bmisscount ((beacon_missed P ^^ n) sc) + 1 = word_of_nat (Suc n)"
    using missed_count [where P = P and n = n and sc = sc] assms(1) by simp
  moreover have "unat (word_of_nat (Suc n) :: 32 word) = Suc n"
    using Suc.prems assms(3) by (intro unat_of_nat32) simp
  ultimately have u: "unat (sc_bmisscount ((beacon_missed P ^^ n) sc) + 1) = Suc n"
    by (simp only:)
  show ?case using Suc u by (simp add: beacon_missed_resets)
qed

lemma missed_at_thresh:
  assumes "sc_bmisscount sc = 0" and "0 < BSTUCK_THRESH P" and "BSTUCK_THRESH P < 2 ^ 32"
  shows "resets ((beacon_missed P ^^ BSTUCK_THRESH P) sc) =
           resets sc + (if sc_noreset sc then 0 else 1)"
proof -
  from assms(2) obtain n where n: "BSTUCK_THRESH P = Suc n" by (cases "BSTUCK_THRESH P") auto
  have b: "resets ((beacon_missed P ^^ n) sc) = resets sc"
    using missed_below_thresh [OF assms(1) _ assms(3), of n] n by simp
  have "sc_bmisscount ((beacon_missed P ^^ n) sc) + 1 = word_of_nat (Suc n)"
    using missed_count [where P = P and n = n and sc = sc] assms(1) by simp
  moreover have "unat (word_of_nat (Suc n) :: 32 word) = Suc n"
    using n assms(3) by (intro unat_of_nat32) simp
  ultimately have u: "unat (sc_bmisscount ((beacon_missed P ^^ n) sc) + 1) = Suc n"
    by (simp only:)
  have nr: "sc_noreset ((beacon_missed P ^^ n) sc) = sc_noreset sc"
    using missed_count [where P = P and n = n and sc = sc] by simp
  show ?thesis using b n u nr by (simp add: beacon_missed_resets)
qed

lemma missed_noreset:
  "sc_noreset sc \<Longrightarrow> resets ((beacon_missed P ^^ n) sc) = resets sc"
  by (induction n) (simp_all add: beacon_missed_resets missed_count)

lemma draintxq_miss [simp]:
  "sc_bmisscount (ath_tx_draintxq sc) = sc_bmisscount sc"
  "resets (ath_tx_draintxq sc) = resets sc"
  by (simp_all add: ath_tx_draintxq_def resets_def)

lemma setup_miss:
  "ath_beacon_setup P sc b = Inr sc' \<Longrightarrow>
   sc_bmisscount sc' = sc_bmisscount sc \<and> resets sc' = resets sc"
  by (auto simp: ath_beacon_setup_def Let_def resets_def split: option.splits if_splits)

lemma generate_miss:
  assumes "ath_beacon_generate P env sc i = Inr (sc', r)"
  shows "sc_bmisscount sc' = sc_bmisscount sc \<and> resets sc' = resets sc"
proof -
  from assms obtain avp where v: "sc_vaps sc i = Some avp"
    by (cases "sc_vaps sc i") (simp_all add: ath_beacon_generate_def)
  show ?thesis
  proof (cases "av_bcbuf avp")
    case None
    with assms v show ?thesis by (simp add: ath_beacon_generate_def)
  next
    case (Some b)
    with assms v obtain skb where fr: "bf_mpdu (sc_bufs sc b) = Some skb"
      by (cases "bf_mpdu (sc_bufs sc b)") (simp_all add: ath_beacon_generate_def)
    define dtim where "dtim = (snd (ath_update_beacon env i (axq_depth (av_mcastq avp))) AND 1 \<noteq> 0)"
    define sc1 where "sc1 = (if axq_depth (av_mcastq avp) \<noteq> 0 \<and> dtim \<and>
        axq_depth (sc_cabq sc) \<noteq> 0 \<and> 1 < sc_nvaps sc \<and> sc_stagbeacons sc
        then ath_tx_draintxq sc else sc)"
    have m1: "sc_bmisscount sc1 = sc_bmisscount sc \<and> resets sc1 = resets sc"
      by (simp add: sc1_def)
    have eq: "ath_beacon_generate P env sc i =
       (case ath_beacon_setup P sc1 b of
          Inl e \<Rightarrow> Inl e
        | Inr sc2 \<Rightarrow>
            (if dtim then
               (case trigger_mcastq P (sc_ah sc2) (sc_bufs sc2) (av_mcastq avp) (sc_cabq sc2) of
                  Inl e \<Rightarrow> Inl e
                | Inr (ah, bufs, mcastq, cabq) \<Rightarrow>
                    Inr (sc2\<lparr>sc_ah := ah, sc_bufs := bufs, sc_cabq := cabq,
                             sc_vaps := (sc_vaps sc2)(i := Some (avp\<lparr>av_mcastq := mcastq\<rparr>))\<rparr>,
                         Some b))
             else Inr (sc2, Some b)))"
      unfolding sc1_def dtim_def using v Some fr
      by (simp add: ath_beacon_generate_def Let_def)
    from assms [unfolded eq] obtain sc2 where s2: "ath_beacon_setup P sc1 b = Inr sc2"
      by (cases "ath_beacon_setup P sc1 b") simp_all
    note m2 = setup_miss [OF s2]
    show ?thesis
    proof (cases dtim)
      case False
      with assms [unfolded eq] s2 have "sc' = sc2" by simp
      with m1 m2 show ?thesis by simp
    next
      case True
      with assms [unfolded eq] s2 obtain ah bufs mcastq cabq where
        "sc' = sc2\<lparr>sc_ah := ah, sc_bufs := bufs, sc_cabq := cabq,
                      sc_vaps := (sc_vaps sc2)(i := Some (avp\<lparr>av_mcastq := mcastq\<rparr>))\<rparr>"
        by (cases "trigger_mcastq P (sc_ah sc2) (sc_bufs sc2) (av_mcastq avp) (sc_cabq sc2)")
           auto
      with m1 m2 show ?thesis by (simp add: resets_def)
    qed
  qed
qed

lemma burst_loop_miss:
  "burst_loop P env slots (sc, bfaddr, bflink, bc, gen) = Inr (sc', bfaddr', bflink', bc', gen') \<Longrightarrow>
   sc_bmisscount sc' = sc_bmisscount sc \<and> resets sc' = resets sc"
proof (induction slots arbitrary: sc bfaddr bflink bc gen)
  case Nil
  then show ?case by simp
next
  case (Cons slot slots)
  from Cons.prems have inb: "slot < length (sc_bslot sc)"
    by (simp split: if_splits)
  show ?case
  proof (cases "sc_bslot sc ! slot = ATH_IF_ID_ANY P")
    case True
    with Cons.prems inb have "burst_loop P env slots (sc, bfaddr, bflink, bc, gen) =
        Inr (sc', bfaddr', bflink', bc', gen')" by simp
    from Cons.IH [OF this] show ?thesis .
  next
    case False
    with Cons.prems inb obtain sc1 r where
      g: "ath_beacon_generate P env sc (sc_bslot sc ! slot) = Inr (sc1, r)"
      by (cases "ath_beacon_generate P env sc (sc_bslot sc ! slot)") (auto simp: Let_def)
    note m1 = generate_miss [OF g]
    show ?thesis
    proof (cases r)
      case None
      with Cons.prems inb False g have "burst_loop P env slots
          (sc1, bfaddr, bflink, bc, gen @ [sc_bslot sc ! slot]) =
          Inr (sc', bfaddr', bflink', bc', gen')" by (simp add: Let_def)
      from Cons.IH [OF this] m1 show ?thesis by simp
    next
      case (Some b)
      define sc2 where "sc2 = (case bflink of None \<Rightarrow> sc1
         | Some l \<Rightarrow> sc1\<lparr>sc_bufs := (sc_bufs sc1)
              (l := (sc_bufs sc1 l)\<lparr>ds_link := cpu_to_le32 P (bf_daddr (sc_bufs sc1 b))\<rparr>)\<rparr>)"
      have m2: "sc_bmisscount sc2 = sc_bmisscount sc1 \<and> resets sc2 = resets sc1"
        by (simp add: sc2_def resets_def split: option.splits)
      from Cons.prems inb False g Some have "burst_loop P env slots
          (sc2, (case bflink of None \<Rightarrow> bf_daddr (sc_bufs sc1 b) | Some l \<Rightarrow> bfaddr), Some b,
           bc + 1, gen @ [sc_bslot sc ! slot]) =
          Inr (sc', bfaddr', bflink', bc', gen')"
        unfolding sc2_def by (simp add: Let_def)
      from Cons.IH [OF this] m1 m2 show ?thesis by simp
    qed
  qed
qed

lemma generate_beacons_miss:
  assumes "generate_beacons P env sc = Inr (sc', slot, bfaddr, bc, gen)"
  shows "sc_bmisscount sc' = sc_bmisscount sc \<and> resets sc' = resets sc"
proof (cases "sc_stagbeacons sc")
  case True
  with assms obtain s where s: "stag_slot P (gettsf64 env) = Inr s"
    by (cases "stag_slot P (gettsf64 env)") (simp_all add: generate_beacons_def)
  with assms True obtain i where i: "stag_if_id P sc s = Inr i"
    by (cases "stag_if_id P sc s") (simp_all add: generate_beacons_def)
  show ?thesis
  proof (cases "i = ATH_IF_ID_ANY P")
    case T: True
    with assms True s i show ?thesis by (simp add: generate_beacons_def)
  next
    case False
    with assms True s i obtain sc1 r where
      g: "ath_beacon_generate P env sc i = Inr (sc1, r)"
      by (cases "ath_beacon_generate P env sc i") (auto simp: generate_beacons_def)
    with assms True s i False have "sc' = sc1"
      by (cases r) (simp_all add: generate_beacons_def)
    with generate_miss [OF g] show ?thesis by simp
  qed
next
  case False
  with assms obtain sc1 bfaddr1 bflink1 bc1 gen1 where
    b: "burst_loop P env [0..<ATH_BCBUF P] (sc, 0, None, 0, []) = Inr (sc1, bfaddr1, bflink1, bc1, gen1)"
    by (cases "burst_loop P env [0..<ATH_BCBUF P] (sc, 0, None, 0, [])")
       (auto simp: generate_beacons_def)
  note m = burst_loop_miss [OF b]
  from assms False b have "sc_bmisscount sc' = sc_bmisscount sc1 \<and> sc_calls sc' = sc_calls sc1"
    by (cases bflink1) (auto simp: generate_beacons_def)
  with m show ?thesis by (simp add: resets_def)
qed

lemma tail_miss:
  "sc_bmisscount (submit_beacons (antenna_check P (slot_time_update sc slot) slot) bfaddr bc) =
     sc_bmisscount sc \<and>
   resets (submit_beacons (antenna_check P (slot_time_update sc slot) slot) bfaddr bc) = resets sc"
  by (simp add: submit_beacons_def antenna_check_def slot_time_update_def Let_def resets_def)

lemma clean_cycle:
  assumes "numtxpending env = 0" and "ath9k_beacon_tasklet P env sc = Inr (sc', gen)"
  shows "sc_bmisscount sc' = 0 \<and> resets sc' = resets sc"
proof -
  define sc0 where "sc0 = (if sc_bmisscount sc \<noteq> 0 then sc\<lparr>sc_bmisscount := 0\<rparr> else sc)"
  have m0: "sc_bmisscount sc0 = 0 \<and> resets sc0 = resets sc"
    by (simp add: sc0_def resets_def)
  from assms obtain sc1 slot bfaddr bc where
    g: "generate_beacons P env sc0 = Inr (sc1, slot, bfaddr, bc, gen)"
    and r: "sc' = submit_beacons (antenna_check P (slot_time_update sc1 slot) slot) bfaddr bc"
    unfolding sc0_def
    by (cases "generate_beacons P env (if sc_bmisscount sc \<noteq> 0 then sc\<lparr>sc_bmisscount := 0\<rparr> else sc)")
       (auto simp: ath9k_beacon_tasklet_def Let_def)
  from generate_beacons_miss [OF g] m0 r tail_miss [of P sc1 slot bfaddr bc]
  show ?thesis by simp
qed

text \<open>
  Claim C2, as the code has it.  \<open>T\<close> is \<^verbatim>\<open>BSTUCK_THRESH\<close>, the counter starts at 0, and
  \<open>pend\<close> are runs of the tasklet that find the beacon queue pending.
  After \<open>T - 1\<close> such runs \<^verbatim>\<open>ath_internal_reset\<close> has not been called, and a following
  run that finds the queue drained leaves the counter at 0, again without a call.
  After \<open>T\<close> such runs it has been called once, by the last of them, when
  \<^verbatim>\<open>sc_noreset\<close> is clear; it has not been called when \<^verbatim>\<open>sc_noreset\<close> is set.
  Every run that finds the queue pending returns without a call of
  \<open>ath_beacon_generate\<close>, leaves the buffers, the CAB queue and the count of beacons
  sent as they are, and makes no call into the hardware layer but at most the
  register dump.
\<close>

theorem miss_counter_threshold:
  assumes "sc_bmisscount sc = 0" and "0 < BSTUCK_THRESH P" and "BSTUCK_THRESH P < 2 ^ 32"
    and "\<forall>env\<in>set pend. numtxpending env \<noteq> 0"
  shows "(length pend = BSTUCK_THRESH P - 1 \<longrightarrow>
            (\<exists>sc1. tasklet_runs P pend sc = Inr (sc1, []) \<and> resets sc1 = resets sc) \<and>
            (\<forall>clean sc' gen. numtxpending clean = 0 \<and>
                tasklet_runs P (pend @ [clean]) sc = Inr (sc', gen) \<longrightarrow>
                sc_bmisscount sc' = 0 \<and> resets sc' = resets sc)) \<and>
         (length pend = BSTUCK_THRESH P \<longrightarrow>
            (\<exists>sc1 sc'. tasklet_runs P (butlast pend) sc = Inr (sc1, []) \<and> resets sc1 = resets sc \<and>
               tasklet_runs P pend sc = Inr (sc', []) \<and>
               resets sc' = resets sc + (if sc_noreset sc then 0 else 1))) \<and>
         (\<forall>env s. numtxpending env \<noteq> 0 \<longrightarrow>
            (\<exists>s'. ath9k_beacon_tasklet P env s = Inr (s', []) \<and>
               ast_be_xmit s' = ast_be_xmit s \<and> sc_bufs s' = sc_bufs s \<and> sc_cabq s' = sc_cabq s \<and>
               (hal_calls (sc_ah s') = hal_calls (sc_ah s) \<or>
                hal_calls (sc_ah s') = hal_calls (sc_ah s) @ [DmaRegDump])))"
proof (intro conjI impI allI)
  assume len: "length pend = BSTUCK_THRESH P - 1"
  then have lt: "length pend < BSTUCK_THRESH P" using assms(2) by simp
  note run = pending_runs [OF assms(4), where P = P and sc = sc]
  note res = missed_below_thresh [OF assms(1) lt assms(3)]
  from run res show "\<exists>sc1. tasklet_runs P pend sc = Inr (sc1, []) \<and> resets sc1 = resets sc"
    by blast
  fix clean :: tasklet_env and sc' :: ath_softc and gen :: "int list"
  assume c: "numtxpending clean = 0 \<and> tasklet_runs P (pend @ [clean]) sc = Inr (sc', gen)"
  then have "ath9k_beacon_tasklet P clean ((beacon_missed P ^^ length pend) sc) = Inr (sc', gen)"
    by (auto simp: tasklet_runs_append run split: sum.splits)
  from clean_cycle [OF _ this] c res
  show "sc_bmisscount sc' = 0" "resets sc' = resets sc" by simp_all
next
  assume len: "length pend = BSTUCK_THRESH P"
  have b: "\<forall>env\<in>set (butlast pend). numtxpending env \<noteq> 0"
    using assms(4) by (meson in_set_butlastD)
  have lt: "length (butlast pend) < BSTUCK_THRESH P" using len assms(2) by simp
  from pending_runs [OF b, where P = P and sc = sc]
    missed_below_thresh [OF assms(1) lt assms(3)]
    pending_runs [OF assms(4), where P = P and sc = sc] missed_at_thresh [OF assms(1-3)] len
  show "\<exists>sc1 sc'. tasklet_runs P (butlast pend) sc = Inr (sc1, []) \<and> resets sc1 = resets sc \<and>
               tasklet_runs P pend sc = Inr (sc', []) \<and>
               resets sc' = resets sc + (if sc_noreset sc then 0 else 1)"
    by simp
next
  fix env :: tasklet_env and s :: ath_softc
  assume "numtxpending env \<noteq> 0"
  then have "ath9k_beacon_tasklet P env s = Inr (beacon_missed P s, [])"
    by (simp add: ath9k_beacon_tasklet_def)
  with beacon_missed_hal [where P = P and sc = s]
  show "\<exists>s'. ath9k_beacon_tasklet P env s = Inr (s', []) \<and>
               ast_be_xmit s' = ast_be_xmit s \<and> sc_bufs s' = sc_bufs s \<and> sc_cabq s' = sc_cabq s \<and>
               (hal_calls (sc_ah s') = hal_calls (sc_ah s) \<or>
                hal_calls (sc_ah s') = hal_calls (sc_ah s) @ [DmaRegDump])"
    by simp
qed

text \<open>
  The claim as worded has a reset after \<open>T\<close> pending runs in every state.  With
  \<^verbatim>\<open>sc_noreset\<close> set, 36 pending runs (\<open>T = 36\<close>) end without any call of
  \<^verbatim>\<open>ath_internal_reset\<close>: line 621 takes the branch that only dumps the registers.
\<close>

theorem noreset_counterexample:
  "resets (fst (projr (tasklet_runs ath9k_params (replicate 36 ex_pending)
      (ex_sc\<lparr>sc_noreset := True\<rparr>)))) = 0"
proof -
  have p: "\<forall>env\<in>set (replicate 36 ex_pending). numtxpending env \<noteq> 0"
    by (simp add: ex_pending_def)
  have n: "sc_noreset (ex_sc\<lparr>sc_noreset := True\<rparr>)" by simp
  from pending_runs [OF p, where P = ath9k_params]
    missed_noreset [OF n, where P = ath9k_params]
  show ?thesis by (simp add: resets_def ex_sc_def)
qed

lemma missed_static:
  "sc_stagbeacons ((beacon_missed P ^^ n) sc) = sc_stagbeacons sc \<and>
   sc_bslot ((beacon_missed P ^^ n) sc) = sc_bslot sc"
  by (induction n) (simp_all add: beacon_missed_def ath_bstuck_process_def Let_def)

lemma ex_clean_run:
  "case tasklet_runs ath9k_params (replicate 35 ex_pending @ [ex_env]) ex_sc of
     Inl e \<Rightarrow> False | Inr (sc', gen) \<Rightarrow> gen = []"
proof -
  have p: "\<forall>env\<in>set (replicate 35 ex_pending). numtxpending env \<noteq> 0"
    by (simp add: ex_pending_def)
  define s35 where "s35 = (beacon_missed ath9k_params ^^ 35) ex_sc"
  have f: "sc_stagbeacons s35" "sc_bslot s35 = [255, 255, 255, 255]"
    unfolding s35_def by (simp_all add: missed_static ex_sc_def)
  have "case ath9k_beacon_tasklet ath9k_params ex_env s35 of
          Inl e \<Rightarrow> False | Inr (sc', gen) \<Rightarrow> gen = []"
    using f
    by (simp add: ath9k_beacon_tasklet_def generate_beacons_def stag_slot_def stag_intval_def
        stag_if_id_def c_rem_def c_div_def tsf_tu_def TSF_TO_TU_def ex_env_def ath9k_params_def
        Let_def)
  then show ?thesis
    using pending_runs [OF p, where P = ath9k_params and sc = ex_sc]
    by (simp add: tasklet_runs_append s35_def split: sum.splits prod.splits)
qed

theorem miss_counter_threshold_witness:
  "resets (fst (projr (tasklet_runs ath9k_params (replicate 36 ex_pending) ex_sc))) = 1 \<and>
   resets (fst (projr (tasklet_runs ath9k_params (replicate 35 ex_pending) ex_sc))) = 0 \<and>
   resets (fst (projr (tasklet_runs ath9k_params (replicate 35 ex_pending @ [ex_env]) ex_sc))) = 0 \<and>
   sc_bmisscount (fst (projr (tasklet_runs ath9k_params (replicate 35 ex_pending @ [ex_env]) ex_sc)))
     = 0"
proof -
  have h: "sc_bmisscount ex_sc = 0" "0 < BSTUCK_THRESH ath9k_params"
    "BSTUCK_THRESH ath9k_params < 2 ^ 32"
    by (simp_all add: ex_sc_def ath9k_params_def)
  have p: "\<forall>env\<in>set (replicate n ex_pending). numtxpending env \<noteq> 0" for n
    by (simp add: ex_pending_def)
  have r0: "resets ex_sc = 0" "\<not> sc_noreset ex_sc" by (simp_all add: resets_def ex_sc_def)
  have l: "length (replicate 36 ex_pending) = BSTUCK_THRESH ath9k_params"
    "length (replicate 35 ex_pending) = BSTUCK_THRESH ath9k_params - 1"
    by (simp_all add: ath9k_params_def)
  from miss_counter_threshold [OF h p, where n1 = 36] l(1) r0
  obtain sc' where "tasklet_runs ath9k_params (replicate 36 ex_pending) ex_sc = Inr (sc', [])"
    "resets sc' = 1" by auto
  moreover from miss_counter_threshold [OF h p, where n1 = 35] l(2) r0
  obtain sc1 where "tasklet_runs ath9k_params (replicate 35 ex_pending) ex_sc = Inr (sc1, [])"
    "resets sc1 = 0" by auto
  moreover from ex_clean_run obtain sc2 gen where
    c: "tasklet_runs ath9k_params (replicate 35 ex_pending @ [ex_env]) ex_sc = Inr (sc2, gen)"
    by (cases "tasklet_runs ath9k_params (replicate 35 ex_pending @ [ex_env]) ex_sc") auto
  moreover have "numtxpending ex_env = 0" by (simp add: ex_env_def)
  with miss_counter_threshold [OF h p, where n1 = 35] l(2) r0 c
  have "sc_bmisscount sc2 = 0 \<and> resets sc2 = 0" by auto
  ultimately show ?thesis by simp
qed

subsection \<open>C7: the interface of a staggered beacon\<close>

lemma unat_ucast16: "unat (ucast (w :: 16 word) :: 32 word) = unat w"
proof -
  have "unat w < 2 ^ 16" using unsigned_less [of w] by simp
  then have "unat w < 2 ^ 32" by simp
  then show ?thesis by (simp add: unsigned_ucast_eq take_bit_nat_eq_self)
qed

lemma sint_small: "unat (w :: 32 word) < 2 ^ 31 \<Longrightarrow> sint w = int (unat w)"
proof -
  assume "unat w < 2 ^ 31"
  then have a: "unat w < 2147483648" by simp
  have b: "uint w < 2147483648" unfolding uint_nat using a by linarith
  have "sint w = signed_take_bit 31 (uint w)" by (simp add: sint_uint)
  also have "\<dots> = uint w"
  proof (rule signed_take_bit_int_eq_self)
    have "0 \<le> uint w" by simp
    then have "- 2147483648 \<le> uint w" by linarith
    then show "- (2 ^ 31) \<le> uint w" by simp
    from b show "uint w < 2 ^ 31" by simp
  qed
  finally show ?thesis unfolding uint_nat .
qed

lemma unat_stag_intval:
  "ATH_DEFAULT_BINTVAL P < 2 ^ 16 \<Longrightarrow> unat (stag_intval P) = ATH_DEFAULT_BINTVAL P"
  unfolding stag_intval_def
  by (simp add: unat_ucast16 unat_of_nat take_bit_nat_eq_self)


lemma c_rem_nonneg: "0 \<le> a \<Longrightarrow> 0 < b \<Longrightarrow> c_rem a b = a mod b"
  by (simp add: c_rem_def c_div_nonneg minus_mult_div_eq_mod)

lemma stag_slot_value:
  assumes I: "0 < ATH_DEFAULT_BINTVAL P" "ATH_DEFAULT_BINTVAL P < 2 ^ 16"
    and B: "0 < ATH_BCBUF P" "ATH_DEFAULT_BINTVAL P * ATH_BCBUF P < 2 ^ 31"
  shows "stag_slot P tsf =
           Inr (int (((unat (tsf_tu tsf) mod ATH_DEFAULT_BINTVAL P) * ATH_BCBUF P)
                      div ATH_DEFAULT_BINTVAL P)) \<and>
         ((unat (tsf_tu tsf) mod ATH_DEFAULT_BINTVAL P) * ATH_BCBUF P) div ATH_DEFAULT_BINTVAL P
           < ATH_BCBUF P"
proof -
  define i where "i = stag_intval P"
  define t where "t = tsf_tu tsf"
  define n where "n = ATH_DEFAULT_BINTVAL P"
  define b where "b = ATH_BCBUF P"
  have ui: "unat i = n" unfolding i_def n_def by (rule unat_stag_intval [OF I(2)])
  have npos: "0 < n" and nb: "n * b < 2 ^ 31" and bpos: "0 < b"
    using I B by (simp_all add: n_def b_def)
  have i0: "i \<noteq> 0" using ui npos by auto
  have bl: "b < 2 ^ 31"
  proof -
    have "b \<le> n * b" using npos by simp
    with nb show ?thesis by linarith
  qed
  have ub: "unat (word_of_nat b :: 32 word) = b"
    using bl by (simp add: unat_of_nat take_bit_nat_eq_self)
  have um: "unat (t mod i) = unat t mod n" by (simp add: unat_mod_distrib ui)
  have "unat t mod n < n" using npos by simp
  then have lt: "(unat t mod n) * b < n * b" using bpos by (rule mult_less_mono1)
  then have small: "(unat t mod n) * b < 2 ^ 31" using nb by (rule less_trans)
  then have "unat (t mod i) * unat (word_of_nat b :: 32 word) < 2 ^ LENGTH(32)"
    by (simp add: um ub)
  then have up: "unat ((t mod i) * word_of_nat b) = (unat t mod n) * b"
    by (simp add: unat_mult_lem [THEN iffD1] um ub)
  have ud: "unat (((t mod i) * word_of_nat b) div i) = ((unat t mod n) * b) div n"
    by (simp add: unat_div_distrib up ui)
  have "((unat t mod n) * b) div n \<le> (unat t mod n) * b" by (rule div_le_dividend)
  with small have "unat (((t mod i) * word_of_nat b) div i) < 2 ^ 31"
    unfolding ud by linarith
  from sint_small [OF this] ud
  have "sint (((t mod i) * word_of_nat b) div i) = int (((unat t mod n) * b) div n)" by simp
  then have a: "stag_slot P tsf = Inr (int (((unat t mod n) * b) div n))"
    using i0 by (simp add: stag_slot_def i_def t_def b_def)
  have "((unat t mod n) * b) div n < b"
  proof -
    from lt have "(unat t mod n) * b < b * n" by (simp add: mult.commute)
    then show ?thesis by (rule less_mult_imp_div_less)
  qed
  with a show ?thesis unfolding t_def n_def b_def by simp
qed


lemma stag_if_id_value:
  assumes "0 < ATH_BCBUF P" and "length (sc_bslot sc) = ATH_BCBUF P"
  shows "stag_if_id P sc (int slot) = Inr (sc_bslot sc ! ((slot + 1) mod ATH_BCBUF P))"
proof -
  have "c_rem (int (slot + 1)) (int (ATH_BCBUF P)) = int (slot + 1) mod int (ATH_BCBUF P)"
    using assms(1) by (intro c_rem_nonneg) simp_all
  also have "\<dots> = int ((slot + 1) mod ATH_BCBUF P)" by (simp only: zmod_int)
  finally have "c_rem (int slot + 1) (int (ATH_BCBUF P)) = int ((slot + 1) mod ATH_BCBUF P)"
    by (simp only: of_nat_add of_nat_1)
  moreover have "(slot + 1) mod ATH_BCBUF P < length (sc_bslot sc)"
    using assms by simp
  ultimately show ?thesis using assms(1) by (simp add: stag_if_id_def Let_def)
qed

lemma generate_beacons_stag:
  assumes "sc_stagbeacons sc" and "stag_slot P (gettsf64 env) = Inr s"
    and "stag_if_id P sc s = Inr i"
  shows "(i = ATH_IF_ID_ANY P \<longrightarrow> generate_beacons P env sc = Inr (sc, s, 0, 0, [])) \<and>
         (\<forall>sc' slot bfaddr bc gen. generate_beacons P env sc = Inr (sc', slot, bfaddr, bc, gen) \<longrightarrow>
            slot = s \<and> gen = (if i = ATH_IF_ID_ANY P then [] else [i]))"
proof (cases "i = ATH_IF_ID_ANY P")
  case True
  with assms show ?thesis by (simp add: generate_beacons_def)
next
  case False
  have "slot = s \<and> gen = [i]"
    if "generate_beacons P env sc = Inr (sc', slot, bfaddr, bc, gen)" for sc' slot bfaddr bc gen
  proof (cases "ath_beacon_generate P env sc i")
    case (Inl e)
    with that assms False show ?thesis by (simp add: generate_beacons_def)
  next
    case (Inr r)
    obtain sc1 b where r: "r = (sc1, b)" by (cases r)
    with that assms False Inr show ?thesis
      by (cases b) (simp_all add: generate_beacons_def)
  qed
  with False show ?thesis by simp
qed

text \<open>
  Claim C7.  A run of the tasklet with staggered beacons that finds the beacon queue
  drained; the interval \<^verbatim>\<open>ATH_DEFAULT_BINTVAL\<close> is positive and fits the 16-bit
  \<^verbatim>\<open>intval\<close>, and interval times \<^verbatim>\<open>ATH_BCBUF\<close> fits an \<^verbatim>\<open>int\<close>.  With \<open>t\<close> the
  clock in TU (the 32-bit value of \<^verbatim>\<open>TSF_TO_TU\<close>), the slot computed is
  \<open>((t mod interval) * ATH_BCBUF) div interval\<close>, it is below \<^verbatim>\<open>ATH_BCBUF\<close>, and the
  interface looked up is the entry of slot \<open>(slot + 1) mod ATH_BCBUF\<close>.  When that
  entry is the sentinel the run ends without a call of \<open>ath_beacon_generate\<close>;
  otherwise a run that ends has called it for that interface and for no other.
\<close>

theorem staggered_selection:
  assumes "sc_stagbeacons sc" and "numtxpending env = 0"
    and "0 < ATH_DEFAULT_BINTVAL P" and "ATH_DEFAULT_BINTVAL P < 2 ^ 16"
    and "0 < ATH_BCBUF P" and "ATH_DEFAULT_BINTVAL P * ATH_BCBUF P < 2 ^ 31"
    and "length (sc_bslot sc) = ATH_BCBUF P"
  shows "let slot = ((unat (tsf_tu (gettsf64 env)) mod ATH_DEFAULT_BINTVAL P) * ATH_BCBUF P)
                      div ATH_DEFAULT_BINTVAL P;
             if_id = sc_bslot sc ! ((slot + 1) mod ATH_BCBUF P)
         in stag_slot P (gettsf64 env) = Inr (int slot) \<and> slot < ATH_BCBUF P \<and>
            stag_if_id P sc (int slot) = Inr if_id \<and>
            (if_id = ATH_IF_ID_ANY P \<longrightarrow>
               (\<exists>sc'. ath9k_beacon_tasklet P env sc = Inr (sc', []))) \<and>
            (\<forall>sc' gen. ath9k_beacon_tasklet P env sc = Inr (sc', gen) \<longrightarrow>
               gen = (if if_id = ATH_IF_ID_ANY P then [] else [if_id]))"
proof -
  define slot where "slot = ((unat (tsf_tu (gettsf64 env)) mod ATH_DEFAULT_BINTVAL P) * ATH_BCBUF P)
                      div ATH_DEFAULT_BINTVAL P"
  define if_id where "if_id = sc_bslot sc ! ((slot + 1) mod ATH_BCBUF P)"
  define sc0 where "sc0 = (if sc_bmisscount sc \<noteq> 0 then sc\<lparr>sc_bmisscount := 0\<rparr> else sc)"
  from stag_slot_value [OF assms(3-6), of "gettsf64 env"]
  have s: "stag_slot P (gettsf64 env) = Inr (int slot)" and lt: "slot < ATH_BCBUF P"
    by (simp_all add: slot_def)
  have st0: "sc_stagbeacons sc0" and len0: "length (sc_bslot sc0) = ATH_BCBUF P"
    and bs0: "sc_bslot sc0 = sc_bslot sc"
    using assms(1,7) by (simp_all add: sc0_def)
  from stag_if_id_value [OF assms(5,7), of slot]
  have i: "stag_if_id P sc (int slot) = Inr if_id" by (simp add: if_id_def)
  from stag_if_id_value [OF assms(5) len0, of slot]
  have i0: "stag_if_id P sc0 (int slot) = Inr if_id" by (simp add: if_id_def bs0)
  note g = generate_beacons_stag [OF st0 s i0]
  have t: "ath9k_beacon_tasklet P env sc =
     (case generate_beacons P env sc0 of
        Inl e \<Rightarrow> Inl e
      | Inr (sc1, slot, bfaddr, bc, gen) \<Rightarrow>
          Inr (submit_beacons (antenna_check P (slot_time_update sc1 slot) slot) bfaddr bc, gen))"
    using assms(2) by (simp add: ath9k_beacon_tasklet_def sc0_def Let_def)
  have a: "\<exists>sc'. ath9k_beacon_tasklet P env sc = Inr (sc', [])" if "if_id = ATH_IF_ID_ANY P"
  proof -
    from g that have "generate_beacons P env sc0 = Inr (sc0, int slot, 0, 0, [])" by blast
    then show ?thesis by (simp add: t)
  qed
  have b: "gen = (if if_id = ATH_IF_ID_ANY P then [] else [if_id])"
    if "ath9k_beacon_tasklet P env sc = Inr (sc', gen)" for sc' gen
  proof (cases "generate_beacons P env sc0")
    case (Inl e)
    with that show ?thesis by (simp add: t)
  next
    case (Inr r)
    obtain sc1 sl bfaddr bc gen1 where r: "r = (sc1, sl, bfaddr, bc, gen1)" by (cases r)
    with Inr that have "gen = gen1" by (simp add: t)
    moreover from g Inr r have "gen1 = (if if_id = ATH_IF_ID_ANY P then [] else [if_id])"
      by blast
    ultimately show ?thesis by simp
  qed
  from s lt i a b show ?thesis
    unfolding Let_def slot_def [symmetric] if_id_def [symmetric] by blast
qed


lemma ex_tasklet_runs:
  "case ath9k_beacon_tasklet ath9k_params ex_env ex_sc_dtim of
     Inl e \<Rightarrow> False | Inr (sc', gen) \<Rightarrow> True"
  by (simp add: ath9k_beacon_tasklet_def generate_beacons_def stag_slot_def stag_intval_def
      stag_if_id_def c_rem_def c_div_def tsf_tu_def TSF_TO_TU_def ex_env_def ath9k_params_def
      ex_sc_dtim_def ex_sc_def ex_vap_def ex_buf_def ex_frame_def ex_mcastq_def ex_cabq_def
      ath_beacon_generate_def ath_beacon_setup_def ath_tx_draintxq_def trigger_mcastq_def
      empty_mcastq_into_cabq_def Let_def)

theorem staggered_selection_witness:
  "snd (projr (ath9k_beacon_tasklet ath9k_params ex_env ex_sc_dtim)) = [0] \<and>
   snd (projr (ath9k_beacon_tasklet ath9k_params (ex_env\<lparr>gettsf64 := 25600\<rparr>) ex_sc_dtim)) = []"
proof -
  have h: "sc_stagbeacons ex_sc_dtim"
    "0 < ATH_DEFAULT_BINTVAL ath9k_params" "ATH_DEFAULT_BINTVAL ath9k_params < 2 ^ 16"
    "0 < ATH_BCBUF ath9k_params"
    "ATH_DEFAULT_BINTVAL ath9k_params * ATH_BCBUF ath9k_params < 2 ^ 31"
    "length (sc_bslot ex_sc_dtim) = ATH_BCBUF ath9k_params"
    by (simp_all add: ex_sc_dtim_def ex_sc_def ath9k_params_def)
  have n0: "numtxpending ex_env = 0" and n1: "numtxpending (ex_env\<lparr>gettsf64 := 25600\<rparr>) = 0"
    by (simp_all add: ex_env_def)
  have t0: "unat (tsf_tu (gettsf64 ex_env)) = 0"
    and t1: "unat (tsf_tu (gettsf64 (ex_env\<lparr>gettsf64 := 25600\<rparr>))) = 25"
    by (simp_all add: ex_env_def tsf_tu_def TSF_TO_TU_def)
  have c: "ATH_DEFAULT_BINTVAL ath9k_params = 100" "ATH_BCBUF ath9k_params = 4"
    "ATH_IF_ID_ANY ath9k_params = 255" "sc_bslot ex_sc_dtim = [255, 0, 255, 255]"
    by (simp_all add: ath9k_params_def ex_sc_dtim_def)
  from ex_tasklet_runs obtain sc0 gen0 where
    r0: "ath9k_beacon_tasklet ath9k_params ex_env ex_sc_dtim = Inr (sc0, gen0)"
    by (cases "ath9k_beacon_tasklet ath9k_params ex_env ex_sc_dtim") auto
  note th0 = staggered_selection [OF h(1) n0 h(2-6), unfolded Let_def t0 c]
  note th1 = staggered_selection [OF h(1) n1 h(2-6), unfolded Let_def t1 c]
  from th0 r0 have a: "gen0 = [0]" by simp
  from th1 obtain sc1 where
    "ath9k_beacon_tasklet ath9k_params (ex_env\<lparr>gettsf64 := 25600\<rparr>) ex_sc_dtim = Inr (sc1, [])"
    by auto
  with a r0 show ?thesis by simp
qed

subsection \<open>C5: the beacon miss threshold of a station\<close>

text \<open>
  The listen interval is 1 (line 828), so the sleep duration is the interval and the
  branch of line 920 is never taken: the threshold is the clamped \<^verbatim>\<open>howmany\<close> of
  lines 925-930, and an interval of 0 divides by zero there.
\<close>

lemma sta_bmissthreshold_eq:
  "sta_bmissthreshold P intval =
     (if intval = 0 then Inl DivideByZero
      else Inr (let t = howmany (ucast (bmiss_timeout (default_conf P))) intval
                in if 15 < t then 15 else if t = 0 then 1 else t))"
proof -
  have one: "ucast (listen_interval (default_conf P)) * intval = intval"
    by (simp add: default_conf_def Let_def)
  have "word_of_int (sint intval) = intval" by simp
  then have dead: "\<not> intval < word_of_int (if sint intval \<le> 0 then sint intval else sint intval)"
    by simp
  show ?thesis
    unfolding sta_bmissthreshold_def Let_def one using dead by simp
qed

lemma sta_bmissthreshold_range:
  assumes "sta_bmissthreshold P intval = Inr thresh"
  shows "intval \<noteq> 0 \<and> 1 \<le> thresh \<and> thresh \<le> 15"
proof -
  have one: "ucast (listen_interval (default_conf P)) * intval = intval"
    by (simp add: default_conf_def Let_def)
  have "word_of_int (sint intval) = intval" by simp
  then have dead: "\<not> intval < word_of_int (if sint intval \<le> 0 then sint intval else sint intval)"
    by simp
  from assms have ne: "intval \<noteq> 0"
    using dead by (auto simp: sta_bmissthreshold_def Let_def one split: if_splits)
  with assms dead have "thresh =
      (let t = howmany (ucast (bmiss_timeout (default_conf P))) intval
       in if 15 < t then 15 else if t = 0 then 1 else t)"
    by (auto simp: sta_bmissthreshold_def Let_def one split: if_splits)
  moreover have "1 \<le> t" if "t \<noteq> 0" for t :: "32 word"
    using that unat_gt_0 [of t] by (simp add: word_le_nat_alt)
  ultimately have "1 \<le> thresh \<and> thresh \<le> 15"
    by (simp add: Let_def not_less)
  with ne show ?thesis by simp
qed

lemma config_nexttbtt_default: "config_nexttbtt P sc m i = i"
  by (simp add: config_nexttbtt_def default_conf_def Let_def TSF_TO_TU_def)

lemma sta_beacon_state_Inr:
  assumes "sta_beacon_state P i n tsf = Some (Inr bs)"
  shows "\<exists>n1 c1 thresh.
           sta_tbtt_loop i (tsf_tu tsf + 2) (sta_dtimperiod P) 1 n (sta_dtimcount P, 0) = Some (n1, c1) \<and>
           sta_bmissthreshold P i = Inr thresh \<and>
           bs_intval bs = i \<and> bs_nexttbtt bs = n1 \<and>
           bs_dtimperiod bs = word_of_int (sta_dtimperiod P) * i \<and>
           bs_nextdtim bs = n1 + word_of_int (fst c1) * i \<and>
           bs_cfpnext bs = bs_nextdtim bs + word_of_int (snd c1) * bs_dtimperiod bs \<and>
           bs_bmissthreshold bs = thresh"
  using assms
  by (auto simp: sta_beacon_state_def Let_def split: option.splits sum.splits prod.splits)

lemma ath_beacon_config_sta:
  assumes "ath_beacon_config P ok tsf sc if_id = Some (Inr (sc', Some bs))"
  shows "\<exists>i. config_intval P sc = Inr i \<and> sta_beacon_state P i i tsf = Some (Inr bs)"
  using assms
  by (auto simp: ath_beacon_config_def Let_def config_nexttbtt_default
      split: if_splits sum.splits option.splits)

text \<open>
  Claim C5.  Whenever \<open>ath_beacon_config\<close> returns on the station path, with the beacon
  state \<open>bs\<close> it computed, the beacon miss threshold of \<open>bs\<close> is at least 1 and at
  most 15.
\<close>

theorem bmiss_threshold_clamped:
  assumes "ath_beacon_config P ok tsf sc if_id = Some (Inr (sc', Some bs))"
  shows "1 \<le> bs_bmissthreshold bs \<and> bs_bmissthreshold bs \<le> 15"
proof -
  from ath_beacon_config_sta [OF assms] obtain i where
    "sta_beacon_state P i i tsf = Some (Inr bs)" by blast
  from sta_beacon_state_Inr [OF this] obtain thresh where
    "sta_bmissthreshold P i = Inr thresh" "bs_bmissthreshold bs = thresh" by blast
  with sta_bmissthreshold_range [of P i thresh] show ?thesis by simp
qed

lemma ex_sta_loop:
  "sta_tbtt_loop 100 2 100 1 100 (1, 0) = Some (200, 0, 0)"
  by (subst sta_tbtt_loop.simps) (simp add: dtim_step_def)

lemma ex_sta_config:
  "\<exists>sc' bs. ath_beacon_config ath9k_params True 0 ex_sta 255 = Some (Inr (sc', Some bs)) \<and>
     bs_intval bs = 100 \<and> bs_nexttbtt bs = 200 \<and> bs_nextdtim bs = 200 \<and> bs_bmissthreshold bs = 10"
  by (simp add: ath_beacon_config_def ex_sta_def ex_sc_def ath9k_params_def config_intval_def
      default_conf_def Let_def sta_path_def config_nexttbtt_default sta_beacon_state_def
      sta_dtimperiod_def sta_dtimcount_def tsf_tu_def TSF_TO_TU_def ex_sta_loop
      sta_bmissthreshold_def howmany_def)

theorem bmiss_threshold_clamped_witness:
  "bs_bmissthreshold (the (snd (projr (the
      (ath_beacon_config ath9k_params True 0 ex_sta 255))))) = 10 \<and>
   1 \<le> bs_bmissthreshold (the (snd (projr (the
      (ath_beacon_config ath9k_params True 0 ex_sta 255))))) \<and>
   bs_bmissthreshold (the (snd (projr (the
      (ath_beacon_config ath9k_params True 0 ex_sta 255))))) \<le> 15"
proof -
  from ex_sta_config obtain sc' bs where
    r: "ath_beacon_config ath9k_params True 0 ex_sta 255 = Some (Inr (sc', Some bs))"
    and t: "bs_bmissthreshold bs = 10" by blast
  from bmiss_threshold_clamped [OF r] t r show ?thesis by simp
qed

subsection \<open>C6: the next beacon time of a station\<close>

text \<open>
  The loop of lines 896-903 when it ends: it has added the interval \<open>k\<close> times, for the
  least \<open>k \<ge> 1\<close> at which the 32-bit candidate is not below \<open>tsftu\<close>, and has stepped
  the counters \<open>k\<close> times.
\<close>

lemma sta_tbtt_loop_exit:
  assumes "sta_tbtt_loop i t dp cp n c = Some r"
  shows "\<exists>k\<ge>1. r = (n + word_of_nat k * i, (dtim_step dp cp ^^ k) c) \<and>
          t \<le> n + word_of_nat k * i \<and>
          (\<forall>j. 1 \<le> j \<and> j < k \<longrightarrow> n + word_of_nat j * i < t)"
proof (rule sta_tbtt_loop.raw_induct
    [where P = "\<lambda>i t dp cp n c r. \<exists>k\<ge>1. r = (n + word_of_nat k * i, (dtim_step dp cp ^^ k) c) \<and>
          t \<le> n + word_of_nat k * i \<and>
          (\<forall>j. 1 \<le> j \<and> j < k \<longrightarrow> n + word_of_nat j * i < t)", OF _ assms], goal_cases)
  case (1 loop i t dp cp n c r)
  show ?case
  proof (cases "n + i < t")
    case False
    with 1(2) have "r = (n + i, dtim_step dp cp c)" by simp
    with False show ?thesis by (intro exI [of _ 1]) simp
  next
    case True
    with 1(2) have "loop i t dp cp (n + i) (dtim_step dp cp c) = Some r" by simp
    from 1(1) [OF this] obtain k where k: "1 \<le> k"
      "r = (n + i + word_of_nat k * i, (dtim_step dp cp ^^ k) (dtim_step dp cp c))"
      "t \<le> n + i + word_of_nat k * i"
      "\<forall>j. 1 \<le> j \<and> j < k \<longrightarrow> n + i + word_of_nat j * i < t" by blast
    have e: "n + i + word_of_nat j * i = n + word_of_nat (Suc j) * i" for j
      by (simp only: of_nat_Suc distrib_right mult_1 add.assoc)
    have m: "n + word_of_nat j * i < t" if "1 \<le> j" "j < Suc k" for j
    proof (cases "j = 1")
      case True
      with \<open>n + i < t\<close> show ?thesis by simp
    next
      case False
      with that obtain j' where j': "j = Suc j'" "1 \<le> j'" "j' < k"
        by (cases j) auto
      from k(4) j'(2,3) have "n + i + word_of_nat j' * i < t" by blast
      then show ?thesis unfolding e j'(1) .
    qed
    have f: "(dtim_step dp cp ^^ k) (dtim_step dp cp c) = (dtim_step dp cp ^^ Suc k) c"
      by (simp add: funpow_swap1)
    note k2 = k(2) [unfolded e f] and k3 = k(3) [unfolded e]
    have "1 \<le> Suc k" by simp
    with k2 k3 m show ?thesis by blast
  qed
qed

text \<open>
  When neither the candidate nor \<open>tsftu\<close> plus one interval passes \<open>2 ^ 32\<close>, the loop
  ends and nothing has wrapped.
\<close>

lemma sta_tbtt_loop_nowrap:
  assumes "i \<noteq> 0" and "unat t + unat i \<le> 2 ^ 32" and "unat n + unat i < 2 ^ 32"
  shows "\<exists>k\<ge>1. sta_tbtt_loop i t dp cp n c =
              Some (n + word_of_nat k * i, (dtim_step dp cp ^^ k) c) \<and>
            unat (n + word_of_nat k * i) = unat n + k * unat i \<and>
            t \<le> n + word_of_nat k * i \<and>
            (\<forall>j. 1 \<le> j \<and> j < k \<longrightarrow> n + word_of_nat j * i < t)"
  using assms(3)
proof (induction "unat t - unat n" arbitrary: n c rule: less_induct)
  case less
  have ipos: "0 < unat i" using assms(1) by (simp add: unat_gt_0)
  have u: "unat (n + i) = unat n + unat i"
    using less.prems by (simp add: unat_add_lem [THEN iffD1])
  show ?case
  proof (cases "n + i < t")
    case False
    then have "sta_tbtt_loop i t dp cp n c = Some (n + i, dtim_step dp cp c)"
      by (subst sta_tbtt_loop.simps) simp
    with False u show ?thesis by (intro exI [of _ 1]) simp
  next
    case True
    then have lt: "unat n + unat i < unat t" using u by (simp add: word_less_nat_alt)
    have m: "unat t - unat (n + i) < unat t - unat n" using lt ipos u by simp
    have b: "unat (n + i) + unat i < 2 ^ 32" using lt assms(2) u by simp
    from less.hyps [OF m b, of "dtim_step dp cp c"] obtain k where k: "1 \<le> k"
      "sta_tbtt_loop i t dp cp (n + i) (dtim_step dp cp c) =
         Some (n + i + word_of_nat k * i, (dtim_step dp cp ^^ k) (dtim_step dp cp c))"
      "unat (n + i + word_of_nat k * i) = unat (n + i) + k * unat i"
      "t \<le> n + i + word_of_nat k * i"
      "\<forall>j. 1 \<le> j \<and> j < k \<longrightarrow> n + i + word_of_nat j * i < t" by blast
    have e: "n + i + word_of_nat j * i = n + word_of_nat (Suc j) * i" for j
      by (simp only: of_nat_Suc distrib_right mult_1 add.assoc)
    have f: "(dtim_step dp cp ^^ k) (dtim_step dp cp c) = (dtim_step dp cp ^^ Suc k) c"
      by (simp add: funpow_swap1)
    have r: "sta_tbtt_loop i t dp cp n c =
        Some (n + word_of_nat (Suc k) * i, (dtim_step dp cp ^^ Suc k) c)"
      using True k(2) [unfolded e f] by (subst sta_tbtt_loop.simps) simp
    have x: "unat (n + word_of_nat (Suc k) * i) = unat n + Suc k * unat i"
      using k(3) [unfolded e] u by simp
    have mn: "n + word_of_nat j * i < t" if "1 \<le> j" "j < Suc k" for j
    proof (cases "j = 1")
      case T: True
      with True show ?thesis by simp
    next
      case False
      with that obtain j' where j': "j = Suc j'" "1 \<le> j'" "j' < k"
        by (cases j) auto
      from k(5) j'(2,3) have "n + i + word_of_nat j' * i < t" by blast
      then show ?thesis unfolding e j'(1) .
    qed
    have "1 \<le> Suc k" by simp
    with r x k(4) [unfolded e] mn show ?thesis by blast
  qed
qed

text \<open>With no CFP (period 1, count 0) the DTIM count runs down modulo the DTIM period.\<close>

lemma dtim_step_mod:
  assumes "0 \<le> x" and "x < dp"
  shows "dtim_step dp 1 (x, 0) = ((x - 1) mod dp, 0)"
proof (cases "x = 0")
  case True
  with assms have "(- 1) mod dp = dp - 1"
    by (simp add: zmod_minus1)
  with True show ?thesis by (simp add: dtim_step_def)
next
  case False
  with assms have "(x - 1) mod dp = x - 1" by simp
  with False assms show ?thesis by (simp add: dtim_step_def)
qed

lemma dtim_steps_mod:
  assumes "0 \<le> x" and "x < dp"
  shows "(dtim_step dp 1 ^^ k) (x, 0) = ((x - int k) mod dp, 0)"
proof (induction k)
  case 0
  with assms show ?case by simp
next
  case (Suc k)
  have dp: "0 < dp" using assms by simp
  have "dtim_step dp 1 ((x - int k) mod dp, 0) = (((x - int k) mod dp - 1) mod dp, 0)"
    using dp by (intro dtim_step_mod) simp_all
  also have "((x - int k) mod dp - 1) mod dp = (x - int (Suc k)) mod dp"
    by (simp add: mod_diff_left_eq algebra_simps)
  finally show ?case using Suc by simp
qed

lemma sta_dtim_range: "0 \<le> sta_dtimcount P \<and> sta_dtimcount P < sta_dtimperiod P"
proof -
  have a: "0 \<le> uint (dtim_period (default_conf P))" and b: "0 \<le> uint (dtim_count (default_conf P))"
    by simp_all
  show ?thesis
    unfolding sta_dtimcount_def sta_dtimperiod_def using a b by presburger
qed

lemma config_intval_small:
  assumes "config_intval P sc = Inr i"
  shows "unat i < 2 ^ 16"
proof -
  let ?b = "beacon_interval (default_conf P)"
  let ?v = "ucast ?b AND HAL_BEACON_PERIOD P :: 32 word"
  have "?v \<le> ucast ?b" by (rule word_and_le2)
  then have "unat ?v \<le> unat ?b" by (simp add: word_le_nat_alt unat_ucast16)
  moreover have "unat ?b < 2 ^ 16" using unsigned_less [of ?b] by simp
  ultimately have v: "unat ?v < 2 ^ 16" by linarith
  have d: "unat (?v div d) \<le> unat ?v" for d by (simp add: unat_div div_le_dividend)
  from assms have "i = ?v \<or> (\<exists>d. i = ?v div d)"
    by (auto simp: config_intval_def Let_def split: if_splits)
  with v d show ?thesis by (auto intro: le_less_trans)
qed

lemma sta_tbtt_loop_cases:
  assumes "i \<noteq> 0" and "unat n + unat i < 2 ^ 32"
  shows "case sta_tbtt_loop i t dp cp n c of
           None \<Rightarrow> 2 ^ 32 < unat t + unat i
         | Some r \<Rightarrow>
             (\<exists>k\<ge>1. r = (n + word_of_nat k * i, (dtim_step dp cp ^^ k) c) \<and>
                t \<le> n + word_of_nat k * i \<and>
                (\<forall>j. 1 \<le> j \<and> j < k \<longrightarrow> n + word_of_nat j * i < t) \<and>
                (unat t + unat i \<le> 2 ^ 32 \<longrightarrow>
                   unat (n + word_of_nat k * i) = unat n + k * unat i))"
proof (cases "unat t + unat i \<le> 2 ^ 32")
  case True
  from sta_tbtt_loop_nowrap [OF assms(1) True assms(2), of dp cp c]
  obtain k where "1 \<le> k"
    "sta_tbtt_loop i t dp cp n c = Some (n + word_of_nat k * i, (dtim_step dp cp ^^ k) c)"
    "unat (n + word_of_nat k * i) = unat n + k * unat i"
    "t \<le> n + word_of_nat k * i"
    "\<forall>j. 1 \<le> j \<and> j < k \<longrightarrow> n + word_of_nat j * i < t" by blast
  then show ?thesis by auto
next
  case False
  show ?thesis
  proof (cases "sta_tbtt_loop i t dp cp n c")
    case None
    with False show ?thesis by simp
  next
    case (Some r)
    from sta_tbtt_loop_exit [OF Some] False Some show ?thesis by auto
  qed
qed

lemma tsftu_fudge_le: "unat (t + 2 :: 32 word) \<le> unat t + 2"
  by (simp add: unat_word_ariths) 

lemma tsftu_fudge_eq: "unat t + 2 < 2 ^ 32 \<Longrightarrow> unat (t + 2 :: 32 word) = unat t + 2"
  by (simp add: unat_word_ariths)

lemma sta_beacon_state_cases:
  assumes "i \<noteq> 0" and "unat i < 2 ^ 16"
  shows "case sta_beacon_state P i i tsf of
           None \<Rightarrow> 2 ^ 32 < unat (tsf_tu tsf) + 2 + unat i
         | Some (Inl e) \<Rightarrow> False
         | Some (Inr bs) \<Rightarrow>
             (\<exists>k\<ge>1. bs_intval bs = i \<and>
                bs_nexttbtt bs = i + word_of_nat k * i \<and>
                tsf_tu tsf + 2 \<le> bs_nexttbtt bs \<and>
                (\<forall>j. 1 \<le> j \<and> j < k \<longrightarrow> i + word_of_nat j * i < tsf_tu tsf + 2) \<and>
                bs_nextdtim bs = bs_nexttbtt bs +
                  word_of_int (fst ((dtim_step (sta_dtimperiod P) 1 ^^ k) (sta_dtimcount P, 0))) * i \<and>
                bs_cfpnext bs = bs_nextdtim bs +
                  word_of_int (snd ((dtim_step (sta_dtimperiod P) 1 ^^ k) (sta_dtimcount P, 0))) *
                    bs_dtimperiod bs \<and>
                (unat (tsf_tu tsf) + 2 + unat i \<le> 2 ^ 32 \<longrightarrow>
                   unat (bs_nexttbtt bs) = unat i + k * unat i \<and>
                   unat (tsf_tu tsf) + 2 \<le> unat (bs_nexttbtt bs)))"
proof -
  let ?t = "tsf_tu tsf + 2"
  let ?dp = "sta_dtimperiod P"
  let ?c = "(sta_dtimcount P, 0 :: int)"
  have ipos: "0 < unat i" using assms(1) by (simp add: unat_gt_0)
  have small: "unat i + unat i < 2 ^ 32" using assms(2) by simp
  obtain thresh where th: "sta_bmissthreshold P i = Inr thresh"
    using assms(1) by (simp add: sta_bmissthreshold_eq)
  note L = sta_tbtt_loop_cases [OF assms(1) small, of ?t ?dp 1 ?c]
  show ?thesis
  proof (cases "sta_tbtt_loop i ?t ?dp 1 i ?c")
    case None
    with L have "2 ^ 32 < unat ?t + unat i" by simp
    moreover have "sta_beacon_state P i i tsf = None"
      using None by (simp add: sta_beacon_state_def Let_def)
    ultimately show ?thesis using tsftu_fudge_le [of "tsf_tu tsf"] by simp
  next
    case (Some r)
    with L obtain k where k: "1 \<le> k"
      "r = (i + word_of_nat k * i, (dtim_step ?dp 1 ^^ k) ?c)"
      "?t \<le> i + word_of_nat k * i"
      "\<forall>j. 1 \<le> j \<and> j < k \<longrightarrow> i + word_of_nat j * i < ?t"
      "unat ?t + unat i \<le> 2 ^ 32 \<longrightarrow> unat (i + word_of_nat k * i) = unat i + k * unat i"
      by auto
    obtain bs where bs: "sta_beacon_state P i i tsf = Some (Inr bs)"
      "bs_intval bs = i" "bs_nexttbtt bs = i + word_of_nat k * i"
      "bs_nextdtim bs = bs_nexttbtt bs + word_of_int (fst ((dtim_step ?dp 1 ^^ k) ?c)) * i"
      "bs_cfpnext bs = bs_nextdtim bs + word_of_int (snd ((dtim_step ?dp 1 ^^ k) ?c)) * bs_dtimperiod bs"
    proof -
      obtain dc cc where d: "(dtim_step ?dp 1 ^^ k) ?c = (dc, cc)"
        by (cases "(dtim_step ?dp 1 ^^ k) ?c") simp
      have "\<exists>bs. sta_beacon_state P i i tsf = Some (Inr bs) \<and>
        bs_intval bs = i \<and> bs_nexttbtt bs = i + word_of_nat k * i \<and>
        bs_nextdtim bs = bs_nexttbtt bs + word_of_int dc * i \<and>
        bs_cfpnext bs = bs_nextdtim bs + word_of_int cc * bs_dtimperiod bs"
        using Some k(2) th d by (simp add: sta_beacon_state_def Let_def)
      with d that show ?thesis by auto
    qed
    have ex: "unat (tsf_tu tsf) + 2 + unat i \<le> 2 ^ 32 \<longrightarrow>
              unat (bs_nexttbtt bs) = unat i + k * unat i \<and>
              unat (tsf_tu tsf) + 2 \<le> unat (bs_nexttbtt bs)"
    proof
      assume nw: "unat (tsf_tu tsf) + 2 + unat i \<le> 2 ^ 32"
      from nw ipos have "unat (tsf_tu tsf) + 2 < 2 ^ 32" by simp
      then have e: "unat ?t = unat (tsf_tu tsf) + 2" by (rule tsftu_fudge_eq)
      with nw k(5) have x: "unat (i + word_of_nat k * i) = unat i + k * unat i" by simp
      from k(3) have "unat ?t \<le> unat (i + word_of_nat k * i)" by (simp add: word_le_nat_alt)
      with e x bs(3) show "unat (bs_nexttbtt bs) = unat i + k * unat i \<and>
              unat (tsf_tu tsf) + 2 \<le> unat (bs_nexttbtt bs)" by simp
    qed
    have g1: "tsf_tu tsf + 2 \<le> bs_nexttbtt bs" using k(3) bs(3) by simp
    have "\<exists>k\<ge>1. bs_intval bs = i \<and>
                bs_nexttbtt bs = i + word_of_nat k * i \<and>
                tsf_tu tsf + 2 \<le> bs_nexttbtt bs \<and>
                (\<forall>j. 1 \<le> j \<and> j < k \<longrightarrow> i + word_of_nat j * i < tsf_tu tsf + 2) \<and>
                bs_nextdtim bs = bs_nexttbtt bs +
                  word_of_int (fst ((dtim_step (sta_dtimperiod P) 1 ^^ k) (sta_dtimcount P, 0))) * i \<and>
                bs_cfpnext bs = bs_nextdtim bs +
                  word_of_int (snd ((dtim_step (sta_dtimperiod P) 1 ^^ k) (sta_dtimcount P, 0))) *
                    bs_dtimperiod bs \<and>
                (unat (tsf_tu tsf) + 2 + unat i \<le> 2 ^ 32 \<longrightarrow>
                   unat (bs_nexttbtt bs) = unat i + k * unat i \<and>
                   unat (tsf_tu tsf) + 2 \<le> unat (bs_nexttbtt bs))"
      apply (rule exI [of _ k])
      apply (intro conjI)
            apply (rule k(1))
           apply (rule bs(2))
          apply (rule bs(3))
         apply (rule g1)
        apply (rule k(4))
       apply (rule bs(4))
      apply (rule bs(5))
      apply (rule ex)
      done
    with bs(1) show ?thesis by simp
  qed
qed

text \<open>
  Claim C6, in the arithmetic of the code.  On the station path with an interval \<open>i\<close>
  other than 0, the candidate the loop starts from is \<open>i\<close> (the timestamp of the last
  beacon is 0, and line 856 puts the interval in its place).  \<open>ath_beacon_config\<close> does
  not fail; when it returns, the next beacon time is \<open>i + k * i\<close> modulo \<open>2 ^ 32\<close> for
  the least \<open>k \<ge> 1\<close> at which this 32-bit value is not below the 32-bit clock in TU
  plus 2, and the DTIM and CFP counts have been stepped \<open>k\<close> times, which leaves the
  DTIM count at the initial count minus \<open>k\<close> modulo the DTIM period and the CFP count
  at 0.  When the clock in TU plus 2 plus one interval does not pass \<open>2 ^ 32\<close> the
  function returns, and both relations hold without the modulus.  It can run forever
  only when that sum passes \<open>2 ^ 32\<close>.
\<close>

theorem sta_tbtt_alignment:
  assumes path: "sta_path sc av_opm"
    and opm: "if if_id \<noteq> ATH_IF_ID_ANY P
              then map_option av_opmode (sc_vaps sc if_id) = Some av_opm
              else sc_opmode sc = av_opm"
    and i: "config_intval P sc = Inr i" "i \<noteq> 0"
  shows "config_nexttbtt P sc av_opm i = i \<and>
    (\<forall>k. (dtim_step (sta_dtimperiod P) 1 ^^ k) (sta_dtimcount P, 0) =
            ((sta_dtimcount P - int k) mod sta_dtimperiod P, 0)) \<and>
    (case ath_beacon_config P ok tsf sc if_id of
       None \<Rightarrow> 2 ^ 32 < unat (tsf_tu tsf) + 2 + unat i
     | Some (Inl e) \<Rightarrow> False
     | Some (Inr (sc', obs)) \<Rightarrow>
         (\<exists>bs. obs = Some bs \<and>
            (\<exists>k\<ge>1. bs_intval bs = i \<and>
                bs_nexttbtt bs = i + word_of_nat k * i \<and>
                tsf_tu tsf + 2 \<le> bs_nexttbtt bs \<and>
                (\<forall>j. 1 \<le> j \<and> j < k \<longrightarrow> i + word_of_nat j * i < tsf_tu tsf + 2) \<and>
                bs_nextdtim bs = bs_nexttbtt bs +
                  word_of_int (fst ((dtim_step (sta_dtimperiod P) 1 ^^ k) (sta_dtimcount P, 0))) * i \<and>
                bs_cfpnext bs = bs_nextdtim bs +
                  word_of_int (snd ((dtim_step (sta_dtimperiod P) 1 ^^ k) (sta_dtimcount P, 0))) *
                    bs_dtimperiod bs \<and>
                (unat (tsf_tu tsf) + 2 + unat i \<le> 2 ^ 32 \<longrightarrow>
                   unat (bs_nexttbtt bs) = unat i + k * unat i \<and>
                   unat (tsf_tu tsf) + 2 \<le> unat (bs_nexttbtt bs)))))"
proof -
  have m: "(if if_id \<noteq> ATH_IF_ID_ANY P
            then (case sc_vaps sc if_id of None \<Rightarrow> Inl NullDeref | Some avp \<Rightarrow> Inr (av_opmode avp))
            else Inr (sc_opmode sc)) = Inr av_opm"
    using opm by (auto split: if_splits option.splits)
  have c: "ath_beacon_config P ok tsf sc if_id =
      (case sta_beacon_state P i i tsf of
         None \<Rightarrow> None
       | Some (Inl e) \<Rightarrow> Some (Inl e)
       | Some (Inr bs) \<Rightarrow>
           Some (Inr (if sc_nostabeacons sc then sc
                      else sc\<lparr>sc_ah := (sc_ah sc)\<lparr>hal_calls := hal_calls (sc_ah sc) @
                                [SetInterrupts 0, SetStaBeaconTimers,
                                 SetInterrupts (sc_imask sc OR HAL_INT_BMISS P)]\<rparr>,
                              sc_imask := sc_imask sc OR HAL_INT_BMISS P\<rparr>,
                      Some bs)))"
    unfolding ath_beacon_config_def m using i(1) path
    by (simp add: Let_def config_nexttbtt_default)
  note S = sta_beacon_state_cases [OF i(2) config_intval_small [OF i(1)], where P = P and tsf = tsf]
  have d: "(dtim_step (sta_dtimperiod P) 1 ^^ k) (sta_dtimcount P, 0) =
            ((sta_dtimcount P - int k) mod sta_dtimperiod P, 0)" for k
    using sta_dtim_range [of P] by (intro dtim_steps_mod) simp_all
  have "case ath_beacon_config P ok tsf sc if_id of
       None \<Rightarrow> 2 ^ 32 < unat (tsf_tu tsf) + 2 + unat i
     | Some (Inl e) \<Rightarrow> False
     | Some (Inr (sc', obs)) \<Rightarrow>
         (\<exists>bs. obs = Some bs \<and>
            (\<exists>k\<ge>1. bs_intval bs = i \<and>
                bs_nexttbtt bs = i + word_of_nat k * i \<and>
                tsf_tu tsf + 2 \<le> bs_nexttbtt bs \<and>
                (\<forall>j. 1 \<le> j \<and> j < k \<longrightarrow> i + word_of_nat j * i < tsf_tu tsf + 2) \<and>
                bs_nextdtim bs = bs_nexttbtt bs +
                  word_of_int (fst ((dtim_step (sta_dtimperiod P) 1 ^^ k) (sta_dtimcount P, 0))) * i \<and>
                bs_cfpnext bs = bs_nextdtim bs +
                  word_of_int (snd ((dtim_step (sta_dtimperiod P) 1 ^^ k) (sta_dtimcount P, 0))) *
                    bs_dtimperiod bs \<and>
                (unat (tsf_tu tsf) + 2 + unat i \<le> 2 ^ 32 \<longrightarrow>
                   unat (bs_nexttbtt bs) = unat i + k * unat i \<and>
                   unat (tsf_tu tsf) + 2 \<le> unat (bs_nexttbtt bs))))"
  proof (cases "sta_beacon_state P i i tsf")
    case None
    with S c show ?thesis by simp
  next
    case (Some r)
    show ?thesis
    proof (cases r)
      case (Inl e)
      with S Some show ?thesis by simp
    next
      case (Inr bs)
      with S Some have "\<exists>k\<ge>1. bs_intval bs = i \<and>
                bs_nexttbtt bs = i + word_of_nat k * i \<and>
                tsf_tu tsf + 2 \<le> bs_nexttbtt bs \<and>
                (\<forall>j. 1 \<le> j \<and> j < k \<longrightarrow> i + word_of_nat j * i < tsf_tu tsf + 2) \<and>
                bs_nextdtim bs = bs_nexttbtt bs +
                  word_of_int (fst ((dtim_step (sta_dtimperiod P) 1 ^^ k) (sta_dtimcount P, 0))) * i \<and>
                bs_cfpnext bs = bs_nextdtim bs +
                  word_of_int (snd ((dtim_step (sta_dtimperiod P) 1 ^^ k) (sta_dtimcount P, 0))) *
                    bs_dtimperiod bs \<and>
                (unat (tsf_tu tsf) + 2 + unat i \<le> 2 ^ 32 \<longrightarrow>
                   unat (bs_nexttbtt bs) = unat i + k * unat i \<and>
                   unat (tsf_tu tsf) + 2 \<le> unat (bs_nexttbtt bs))" by simp
      then show ?thesis unfolding c Some Inr by simp
    qed
  qed
  moreover have "config_nexttbtt P sc av_opm i = i" by (rule config_nexttbtt_default)
  ultimately show ?thesis using d by blast
qed

text \<open>
  Concrete runs of a station with the interval 100: at the clock 1024000 (1000 TU) the
  loop adds the interval ten times; at \<open>0x3FFFFFFFF800\<close> (\<open>2 ^ 32 - 2\<close> TU) the sum
  with the fudge wraps to 0 and the loop ends after one addition; at
  \<open>0x3FFFFFFFF400\<close> (\<open>2 ^ 32 - 3\<close> TU) the candidates are multiples of 4, none of them
  reaches \<open>2 ^ 32 - 1\<close>, and the loop runs forever.
\<close>

lemma ex_tu:
  "tsf_tu 1024000 = 1000" "tsf_tu 0x3FFFFFFFF800 = 0xFFFFFFFE" "tsf_tu 0x3FFFFFFFF400 = 0xFFFFFFFD"
  by (simp_all add: tsf_tu_def TSF_TO_TU_def)

lemma ex_sta_loop10: "sta_tbtt_loop 100 1002 100 1 100 (1, 0) = Some (1100, 91, 0)"
  by (simp add: sta_tbtt_loop.simps dtim_step_def)

lemma ex_sta_loop_wrap: "sta_tbtt_loop 100 4294967296 100 1 100 (1, 0) = Some (200, 0, 0)"
  by (subst sta_tbtt_loop.simps) (simp add: dtim_step_def)

lemma sta_tbtt_loop_stuck:
  assumes "sta_tbtt_loop i t dp cp n c = Some r"
  shows "\<not> (i = 100 \<and> t = 0xFFFFFFFF \<and> unat n mod 4 = 0)"
proof (rule sta_tbtt_loop.raw_induct
    [where P = "\<lambda>i t dp cp n c r. \<not> (i = 100 \<and> t = 0xFFFFFFFF \<and> unat n mod 4 = 0)",
      OF _ assms], goal_cases)
  case (1 loop i t dp cp n c r)
  show ?case
  proof
    assume a: "i = 100 \<and> t = 0xFFFFFFFF \<and> unat n mod 4 = 0"
    have u: "unat (n + 100) = (unat n + 100) mod 4294967296"
      by (simp add: unat_word_ariths)
    have "(unat n + 100) mod 4294967296 mod 4 = (unat n + 100) mod 4"
      by (rule mod_mod_cancel) simp
    then have "unat (n + 100) mod 4 = (unat n + 100) mod 4" by (simp only: u)
    moreover have "(unat n + 100) mod 4 = 0"
    proof -
      from a have "unat n mod 4 = 0" by simp
      then show ?thesis by presburger
    qed
    ultimately have m: "unat (n + 100) mod 4 = 0" by simp
    have "unat (n + 100) \<noteq> 4294967295"
    proof
      assume "unat (n + 100) = 4294967295"
      with m show False by simp
    qed
    moreover have "unat (n + 100) < 4294967296" using unsigned_less [of "n + 100"] by simp
    ultimately have "unat (n + 100) < 4294967295" by linarith
    then have "unat (n + 100) < unat (0xFFFFFFFF :: 32 word)" by simp
    then have lt: "n + 100 < 0xFFFFFFFF" by (simp only: word_less_nat_alt)
    from 1(2) a lt have "loop 100 0xFFFFFFFF dp cp (n + 100) (dtim_step dp cp c) = Some r"
      by simp
    from 1(1) [OF this] m show False by simp
  qed
qed

lemma sta_tbtt_loop_diverges: "sta_tbtt_loop 100 0xFFFFFFFF dp cp 100 c = None"
proof (cases "sta_tbtt_loop 100 0xFFFFFFFF dp cp 100 c")
  case (Some r)
  from sta_tbtt_loop_stuck [OF Some] show ?thesis by simp
qed simp

lemma ex_sta_diverges: "ath_beacon_config ath9k_params True 0x3FFFFFFFF400 ex_sta 255 = None"
  by (simp add: ath_beacon_config_def ex_sta_def ex_sc_def ath9k_params_def config_intval_def
      default_conf_def Let_def sta_path_def config_nexttbtt_default sta_beacon_state_def
      sta_dtimperiod_def sta_dtimcount_def ex_tu sta_tbtt_loop_diverges)

lemma ex_sta_config10:
  "\<exists>sc' bs. ath_beacon_config ath9k_params True 1024000 ex_sta 255 = Some (Inr (sc', Some bs)) \<and>
     bs_intval bs = 100 \<and> bs_nexttbtt bs = 1100 \<and> bs_nextdtim bs = 10200 \<and> bs_cfpnext bs = 10200"
  by (simp add: ath_beacon_config_def ex_sta_def ex_sc_def ath9k_params_def config_intval_def
      default_conf_def Let_def sta_path_def config_nexttbtt_default sta_beacon_state_def
      sta_dtimperiod_def sta_dtimcount_def ex_tu ex_sta_loop10
      sta_bmissthreshold_def howmany_def)

lemma ex_sta_config_wrap:
  "\<exists>sc' bs. ath_beacon_config ath9k_params True 0x3FFFFFFFF800 ex_sta 255 = Some (Inr (sc', Some bs)) \<and>
     bs_intval bs = 100 \<and> bs_nexttbtt bs = 200"
  by (simp add: ath_beacon_config_def ex_sta_def ex_sc_def ath9k_params_def config_intval_def
      default_conf_def Let_def sta_path_def config_nexttbtt_default sta_beacon_state_def
      sta_dtimperiod_def sta_dtimcount_def ex_tu ex_sta_loop_wrap
      sta_bmissthreshold_def howmany_def)

theorem sta_tbtt_alignment_witness:
  "unat (bs_nexttbtt (the (snd (projr (the
      (ath_beacon_config ath9k_params True 1024000 ex_sta 255)))))) = 1100 \<and>
   unat (tsf_tu 1024000) + 2 \<le> unat (bs_nexttbtt (the (snd (projr (the
      (ath_beacon_config ath9k_params True 1024000 ex_sta 255)))))) \<and>
   bs_nextdtim (the (snd (projr (the
      (ath_beacon_config ath9k_params True 1024000 ex_sta 255))))) = 10200"
proof -
  have h: "sta_path ex_sta HAL_M_STA"
    "if 255 \<noteq> ATH_IF_ID_ANY ath9k_params
     then map_option av_opmode (sc_vaps ex_sta 255) = Some HAL_M_STA
     else sc_opmode ex_sta = HAL_M_STA"
    "config_intval ath9k_params ex_sta = Inr 100" "(100 :: 32 word) \<noteq> 0"
    by (simp_all add: sta_path_def ex_sta_def ex_sc_def ath9k_params_def config_intval_def
        default_conf_def Let_def)
  from ex_sta_config10 obtain sc' bs where
    r: "ath_beacon_config ath9k_params True 1024000 ex_sta 255 = Some (Inr (sc', Some bs))"
    and v: "bs_nexttbtt bs = 1100" "bs_nextdtim bs = 10200" by blast
  from sta_tbtt_alignment [OF h, where ok = True and tsf = 1024000]
  have "case ath_beacon_config ath9k_params True 1024000 ex_sta 255 of
       None \<Rightarrow> 2 ^ 32 < unat (tsf_tu 1024000) + 2 + unat (100 :: 32 word)
     | Some (Inl e) \<Rightarrow> False
     | Some (Inr (sc', obs)) \<Rightarrow>
         (\<exists>bs. obs = Some bs \<and>
            (\<exists>k\<ge>1. bs_intval bs = 100 \<and>
                bs_nexttbtt bs = 100 + word_of_nat k * 100 \<and>
                tsf_tu 1024000 + 2 \<le> bs_nexttbtt bs \<and>
                (\<forall>j. 1 \<le> j \<and> j < k \<longrightarrow> 100 + word_of_nat j * 100 < tsf_tu 1024000 + 2) \<and>
                bs_nextdtim bs = bs_nexttbtt bs +
                  word_of_int (fst ((dtim_step (sta_dtimperiod ath9k_params) 1 ^^ k)
                    (sta_dtimcount ath9k_params, 0))) * 100 \<and>
                bs_cfpnext bs = bs_nextdtim bs +
                  word_of_int (snd ((dtim_step (sta_dtimperiod ath9k_params) 1 ^^ k)
                    (sta_dtimcount ath9k_params, 0))) * bs_dtimperiod bs \<and>
                (unat (tsf_tu 1024000) + 2 + unat (100 :: 32 word) \<le> 2 ^ 32 \<longrightarrow>
                   unat (bs_nexttbtt bs) = unat (100 :: 32 word) + k * unat (100 :: 32 word) \<and>
                   unat (tsf_tu 1024000) + 2 \<le> unat (bs_nexttbtt bs))))"
    by blast
  then obtain k where
    "unat (tsf_tu 1024000) + 2 + unat (100 :: 32 word) \<le> 2 ^ 32 \<longrightarrow>
       unat (bs_nexttbtt bs) = unat (100 :: 32 word) + k * unat (100 :: 32 word) \<and>
       unat (tsf_tu 1024000) + 2 \<le> unat (bs_nexttbtt bs)"
    unfolding r by auto
  moreover have "unat (tsf_tu 1024000) + 2 + unat (100 :: 32 word) \<le> 2 ^ 32"
    by (simp add: ex_tu)
  ultimately have "unat (tsf_tu 1024000) + 2 \<le> unat (bs_nexttbtt bs)" by blast
  with r v show ?thesis by simp
qed

text \<open>
  The claim as worded has the next beacon time at least the clock in TU plus 2.  At the
  clock \<open>0x3FFFFFFFF800\<close> the clock in TU is \<open>2 ^ 32 - 2\<close>; line 895 adds the fudge in
  32 bits and gets 0, the loop ends after its first addition, and the next beacon time
  is 200, below \<open>2 ^ 32\<close>.
\<close>

theorem tbtt_wrap_counterexample:
  "unat (bs_nexttbtt (the (snd (projr (the
      (ath_beacon_config ath9k_params True 0x3FFFFFFFF800 ex_sta 255)))))) = 200 \<and>
   unat (tsf_tu 0x3FFFFFFFF800) + 2 = 4294967296"
proof -
  from ex_sta_config_wrap obtain sc' bs where
    "ath_beacon_config ath9k_params True 0x3FFFFFFFF800 ex_sta 255 = Some (Inr (sc', Some bs))"
    "bs_nexttbtt bs = 200" by blast
  then show ?thesis by (simp add: ex_tu)
qed

end
